theory Spec2Isabelle
  imports Main "HOL-Library.Monad_Syntax"
begin

section \<open>Addressing: digits, parsing and rendering of identifiers\<close>

text \<open>
  The C++ type \<^verbatim>\<open>long long\<close> is modelled by \<^typ>\<open>int\<close> with the 64-bit
  two's-complement wrap-around written out where the source computes a value that
  may leave the range.
\<close>

definition wrap64 :: "int \<Rightarrow> int" where
  "wrap64 x = (x + 2 ^ 63) mod 2 ^ 64 - 2 ^ 63"

definition LLONG_MAX :: int where
  "LLONG_MAX = 2 ^ 63 - 1"

text \<open>The identifiers of the store: the non-negative values of a \<^verbatim>\<open>long long\<close>.\<close>

definition in_range :: "int \<Rightarrow> bool" where
  "in_range v = (0 \<le> v \<and> v \<le> LLONG_MAX)"

definition ord :: "char \<Rightarrow> int" where
  "ord c = of_char c"

definition digitValue :: "char \<Rightarrow> int" where
  "digitValue c =
     (if 48 \<le> ord c \<and> ord c \<le> 57 then ord c - 48
      else if 65 \<le> ord c \<and> ord c \<le> 90 then 10 + (ord c - 65)
      else if 97 \<le> ord c \<and> ord c \<le> 122 then 10 + (ord c - 97)
      else - 1)"

fun parseIntBase_loop :: "string \<Rightarrow> int \<Rightarrow> int \<Rightarrow> int option" where
  "parseIntBase_loop [] base v = Some v"
| "parseIntBase_loop (c # cs) base v =
     (let d = digitValue c in
      if d < 0 \<or> d \<ge> base then None
      else (let v' = wrap64 (v * base + d) in
            if v' < 0 then None else parseIntBase_loop cs base v'))"

definition parseIntBase :: "string \<Rightarrow> int \<Rightarrow> int option" where
  "parseIntBase s base = (if s = [] then None else parseIntBase_loop s base 0)"

definition digitChar :: "int \<Rightarrow> char" where
  "digitChar d = (if d < 10 then char_of (48 + d) else char_of (97 + (d - 10)))"

text \<open>
  The \<^verbatim>\<open>while (val>0)\<close> loop of \<^verbatim>\<open>toBaseN\<close>. The source enters it only after
  line 82 has forced the base into 2..36; the guard \<open>2 \<le> base\<close> repeats that fact
  so that the recursion is well-founded for every argument.
\<close>

function toBaseN_loop :: "int \<Rightarrow> int \<Rightarrow> string \<Rightarrow> string" where
  "toBaseN_loop val base s =
     (if 0 < val \<and> 2 \<le> base
      then toBaseN_loop (val div base) base (s @ [digitChar (val mod base)])
      else s)"
  by pat_completeness auto
termination
proof (relation "measure (\<lambda>(val, base, s). nat val)")
  fix val base :: int and s :: string
  assume a: "0 < val \<and> 2 \<le> base"
  then have "val div base < val"
    by (simp add: int_div_less_self)
  with a show "((val div base, base, s @ [digitChar (val mod base)]), (val, base, s))
                 \<in> measure (\<lambda>(val, base, s). nat val)"
    by simp
qed simp

declare toBaseN_loop.simps [simp del]

definition toBaseN :: "int \<Rightarrow> int \<Rightarrow> int \<Rightarrow> string" where
  "toBaseN val0 base0 width =
     (let base = (if base0 < 2 \<or> 36 < base0 then 10 else base0) in
      if val0 = 0 then replicate (nat (max 1 width)) CHR ''0''
      else
        let neg = (val0 < 0);
            val = (if neg then wrap64 (- val0) else val0);
            s1 = toBaseN_loop val base [];
            s2 = (if neg then s1 @ ''-'' else s1);
            s3 = rev s2
        in if 0 < width \<and> int (length s3) < width
           then replicate (nat (width - int (length s3))) CHR ''0'' @ s3
           else s3)"

section \<open>Configuration and the store\<close>

record Config =
  prefix :: char
  base :: int
  widthBank :: int
  widthReg :: int
  widthAddr :: int

definition default_Config :: Config where
  "default_Config =
     \<lparr>prefix = CHR ''x'', base = 10, widthBank = 5, widthReg = 2, widthAddr = 4\<rparr>"

text \<open>
  A \<^verbatim>\<open>std::map<long long, V>\<close> is an association list kept in ascending key
  order without repeated keys: \<open>map_of\<close> is \<^verbatim>\<open>find\<close>, \<open>map_put\<close> is the
  assignment \<^verbatim>\<open>m[k] = v\<close>, and the list order is the iteration order.
\<close>

type_synonym 'v lmap = "(int \<times> 'v) list"

fun map_put :: "int \<Rightarrow> 'v \<Rightarrow> 'v lmap \<Rightarrow> 'v lmap" where
  "map_put k v [] = [(k, v)]"
| "map_put k v ((k', v') # m) =
     (if k < k' then (k, v) # (k', v') # m
      else if k = k' then (k, v) # m
      else (k', v') # map_put k v m)"

definition ascending :: "'v lmap \<Rightarrow> bool" where
  "ascending m = (sorted (map fst m) \<and> distinct (map fst m))"

record Bank =
  bank_id :: int
  title :: string
  regs :: "string lmap lmap"

definition empty_Bank :: Bank where
  "empty_Bank = \<lparr>bank_id = 0, title = [], regs = []\<rparr>"

record Workspace =
  banks :: "Bank lmap"
  filenames :: "string lmap"

text \<open>\<^verbatim>\<open>outBank.regs[currentReg][addrId] = val\<close>\<close>

definition regs_put :: "int \<Rightarrow> int \<Rightarrow> string \<Rightarrow> string lmap lmap \<Rightarrow> string lmap lmap" where
  "regs_put r a v rs =
     map_put r (map_put a v (case map_of rs r of None \<Rightarrow> [] | Some m \<Rightarrow> m)) rs"

text \<open>The value held at a register and an address, if any.\<close>

definition regs_get :: "string lmap lmap \<Rightarrow> int \<Rightarrow> int \<Rightarrow> string option" where
  "regs_get rs reg addr =
     (case map_of rs reg of None \<Rightarrow> None | Some addrs \<Rightarrow> map_of addrs addr)"

definition bank_cell :: "Bank \<Rightarrow> int \<Rightarrow> int \<Rightarrow> string option" where
  "bank_cell b reg addr = regs_get (regs b) reg addr"

section \<open>Strings\<close>

definition TAB :: char where "TAB = CHR 0x09"
definition NL :: char where "NL = CHR 0x0A"

text \<open>\<^verbatim>\<open>std::isspace\<close> and \<^verbatim>\<open>std::isalnum\<close> in the C locale.\<close>

definition isspace :: "char \<Rightarrow> bool" where
  "isspace c = (ord c = 32 \<or> (9 \<le> ord c \<and> ord c \<le> 13))"

definition isdigit :: "char \<Rightarrow> bool" where
  "isdigit c = (48 \<le> ord c \<and> ord c \<le> 57)"

definition isalpha :: "char \<Rightarrow> bool" where
  "isalpha c = ((65 \<le> ord c \<and> ord c \<le> 90) \<or> (97 \<le> ord c \<and> ord c \<le> 122))"

definition isalnum :: "char \<Rightarrow> bool" where
  "isalnum c = (isdigit c \<or> isalpha c)"

text \<open>\<^verbatim>\<open>std::toupper\<close> in the C locale, to say that parsing does not look at case.\<close>

definition toupper :: "char \<Rightarrow> char" where
  "toupper c = (if 97 \<le> ord c \<and> ord c \<le> 122 then char_of (ord c - 32) else c)"

definition trim :: "string \<Rightarrow> string" where
  "trim s = rev (dropWhile isspace (rev (dropWhile isspace s)))"

definition find_char :: "char \<Rightarrow> string \<Rightarrow> nat option" where
  "find_char c s =
     (if c \<in> set s then Some (length (takeWhile (\<lambda>x. x \<noteq> c) s)) else None)"

definition rfind_char :: "char \<Rightarrow> string \<Rightarrow> nat option" where
  "rfind_char c s =
     (if c \<in> set s then Some (length s - 1 - length (takeWhile (\<lambda>x. x \<noteq> c) (rev s)))
      else None)"

definition substr :: "string \<Rightarrow> nat \<Rightarrow> nat \<Rightarrow> string" where
  "substr s pos n = take n (drop pos s)"

text \<open>
  The \<^verbatim>\<open>while (std::getline(is, line))\<close> loop: the text is cut at every newline,
  and a last piece is a line only when it is not empty.
\<close>

fun getlines :: "string \<Rightarrow> string \<Rightarrow> string list" where
  "getlines cur [] = (if cur = [] then [] else [cur])"
| "getlines cur (c # cs) =
     (if c = NL then cur # getlines [] cs else getlines (cur @ [c]) cs)"

section \<open>The bank text format\<close>

text \<open>
  \<^verbatim>\<open>parseBankText\<close> returns \<open>Inl\<close> with the message of the failed
  \<^verbatim>\<open>ParseResult\<close>, or \<open>Inr\<close> with the bank it has filled in. (On failure the
  source leaves a partly filled \<^verbatim>\<open>outBank\<close> behind; every caller drops it.)
\<close>

definition strip_bom :: "string \<Rightarrow> string" where
  "strip_bom s = (if take 3 s = [CHR 0xEF, CHR 0xBB, CHR 0xBF] then drop 3 s else s)"

fun accum_header :: "string \<Rightarrow> string list \<Rightarrow> string" where
  "accum_header acc [] = acc"
| "accum_header acc (l # ls) =
     (if CHR ''{'' \<in> set acc then acc else accum_header (acc @ '' '' @ trim l) ls)"

fun parse_body :: "Config \<Rightarrow> string list \<Rightarrow> int \<Rightarrow> string lmap lmap \<Rightarrow> string + string lmap lmap" where
  "parse_body cfg [] currentReg rs = Inr rs"
| "parse_body cfg (s # ls) currentReg rs =
     (if CHR ''}'' \<in> set s then Inr rs
      else if trim s = [] then parse_body cfg ls currentReg rs
      else if s \<noteq> [] \<and> hd s \<noteq> TAB \<and> hd s \<noteq> CHR '' '' then
        (case parseIntBase (trim s) (base cfg) of
           None \<Rightarrow> Inl (''invalid register line: '' @ trim s)
         | Some regId \<Rightarrow> parse_body cfg ls regId rs)
      else
        (let t = dropWhile (\<lambda>c. c = TAB \<or> c = CHR '' '') s;
             sep = (case find_char TAB t of Some i \<Rightarrow> Some i | None \<Rightarrow> find_char CHR '' '' t);
             addrTok = (case sep of None \<Rightarrow> trim t | Some i \<Rightarrow> trim (substr t 0 i));
             val = (case sep of None \<Rightarrow> [] | Some i \<Rightarrow> drop (i + 1) t)
         in case parseIntBase addrTok (base cfg) of
              None \<Rightarrow> Inl (''invalid address id: '' @ addrTok)
            | Some addrId \<Rightarrow> parse_body cfg ls currentReg (regs_put currentReg addrId val rs)))"

definition parseBankText :: "string \<Rightarrow> Config \<Rightarrow> string + Bank" where
  "parseBankText text cfg =
     (let lines = getlines [] (strip_bom text) in
      if lines = [] then Inl ''empty file''
      else
        let from_i = dropWhile (\<lambda>l. trim l = []) lines in
        case from_i of
          [] \<Rightarrow> Inl ''no header found''
        | hdr # later \<Rightarrow>
            let headerAccum = accum_header (trim hdr) later in
            if CHR ''{'' \<notin> set headerAccum then Inl ''missing '{' after header''
            else
              case (find_char CHR ''('' headerAccum, rfind_char CHR '')'' headerAccum) of
                (Some lp, Some rp) \<Rightarrow>
                  if rp < lp then Inl ''malformed header: parentheses''
                  else
                    let left0 = trim (substr headerAccum 0 lp);
                        ttl = trim (substr headerAccum (lp + 1) (rp - lp - 1));
                        left = (if left0 \<noteq> [] \<and> hd left0 = prefix cfg then tl left0 else left0)
                    in (case parseIntBase left (base cfg) of
                          None \<Rightarrow> Inl ''cannot parse bank id''
                        | Some bankId \<Rightarrow>
                            (case dropWhile (\<lambda>l. CHR ''{'' \<notin> set l) from_i of
                               [] \<Rightarrow> Inl ''missing body start''
                             | brace_line # body \<Rightarrow>
                                 (case parse_body cfg body 1 [] of
                                    Inl e \<Rightarrow> Inl e
                                  | Inr rs \<Rightarrow> Inr \<lparr>bank_id = bankId, title = ttl, regs = rs\<rparr>)))
              | _ \<Rightarrow> Inl ''malformed header: parentheses'')"

definition addr_line :: "Config \<Rightarrow> int \<times> string \<Rightarrow> string" where
  "addr_line cfg e = [TAB] @ toBaseN (fst e) (base cfg) (widthAddr cfg) @ [TAB] @ snd e @ [NL]"

definition writeBankText :: "Bank \<Rightarrow> Config \<Rightarrow> string" where
  "writeBankText b cfg =
     (let bankStr = prefix cfg # toBaseN (bank_id b) (base cfg) (widthBank cfg);
          header = bankStr @ [TAB] @ ''('' @ title b @ ''){'' @ [NL];
          multi = (1 < length (regs b) \<or> (length (regs b) = 1 \<and> fst (hd (regs b)) \<noteq> 1));
          body =
            (if \<not> multi then
               (case map_of (regs b) 1 of
                  None \<Rightarrow> []
                | Some addrs \<Rightarrow> concat (map (addr_line cfg) addrs))
             else
               concat (map (\<lambda>ra. toBaseN (fst ra) (base cfg) (widthReg cfg) @ [NL]
                                  @ concat (map (addr_line cfg) (snd ra))) (regs b)))
      in header @ body @ ''}'' @ [NL])"

section \<open>Files and on-demand loading\<close>

text \<open>
  The file system the program reads: a path either names nothing, a file that
  exists but cannot be opened, or a file with its bytes. Paths are the strings the
  program builds, relative to its working directory.
\<close>

datatype fentry = Absent | Locked | File string

type_synonym fsys = "string \<Rightarrow> fentry"

text \<open>\<^verbatim>\<open>fs::path("files") / name\<close>: an absolute right operand replaces the left one.\<close>

definition path_join :: "string \<Rightarrow> string \<Rightarrow> string" where
  "path_join dir name =
     (if name \<noteq> [] \<and> hd name = CHR ''/'' then name else dir @ ''/'' @ name)"

definition contextFileName :: "Config \<Rightarrow> int \<Rightarrow> string" where
  "contextFileName cfg bankId =
     path_join ''files''
       (prefix cfg # toBaseN bankId (base cfg) (widthBank cfg) @ ''.txt'')"

definition loadContextFile :: "Config \<Rightarrow> fsys \<Rightarrow> string \<Rightarrow> string + Bank" where
  "loadContextFile cfg fs file =
     (case fs file of
        Absent \<Rightarrow> Inl (''file not found: '' @ file)
      | Locked \<Rightarrow> Inl (''cannot open: '' @ file)
      | File text \<Rightarrow> parseBankText text cfg)"

text \<open>
  \<^verbatim>\<open>ensureBankLoadedInWorkspace\<close> returns \<open>Inl err\<close> for \<^verbatim>\<open>false\<close> (the
  workspace is then untouched) and \<open>Inr ws'\<close> for \<^verbatim>\<open>true\<close>.
\<close>

definition ensureBankLoadedInWorkspace :: "Config \<Rightarrow> fsys \<Rightarrow> Workspace \<Rightarrow> int \<Rightarrow> string + Workspace" where
  "ensureBankLoadedInWorkspace cfg fs ws bankId =
     (if map_of (banks ws) bankId \<noteq> None then Inr ws
      else
        let file = contextFileName cfg bankId in
        if fs file = Absent then Inl (''missing context file: '' @ file)
        else case loadContextFile cfg fs file of
               Inl err \<Rightarrow> Inl err
             | Inr b \<Rightarrow>
                 Inr (ws\<lparr>banks := map_put bankId b (banks ws),
                          filenames := map_put bankId file (filenames ws)\<rparr>))"

text \<open>The workspace after a call whose result the caller discards.\<close>

definition after_ensure :: "Config \<Rightarrow> fsys \<Rightarrow> Workspace \<Rightarrow> int \<Rightarrow> Workspace" where
  "after_ensure cfg fs ws bankId =
     (case ensureBankLoadedInWorkspace cfg fs ws bankId of Inl err \<Rightarrow> ws | Inr ws' \<Rightarrow> ws')"

section \<open>The resolver\<close>

text \<open>
  \<^verbatim>\<open>Resolver::getValue\<close> first tries to load the bank, through a
  \<^verbatim>\<open>const_cast\<close> of the workspace; so it returns the workspace too.
\<close>

definition cell :: "Workspace \<Rightarrow> int \<Rightarrow> int \<Rightarrow> int \<Rightarrow> string option" where
  "cell ws bank reg addr =
     (case map_of (banks ws) bank of
        None \<Rightarrow> None
      | Some b \<Rightarrow> bank_cell b reg addr)"

definition getValue :: "Config \<Rightarrow> fsys \<Rightarrow> Workspace \<Rightarrow> int \<Rightarrow> int \<Rightarrow> int \<Rightarrow> string option \<times> Workspace" where
  "getValue cfg fs ws bank reg addr =
     (let ws1 = after_ensure cfg fs ws bank in (cell ws1 bank reg addr, ws1))"

definition getValueTwoPart :: "Config \<Rightarrow> fsys \<Rightarrow> Workspace \<Rightarrow> int \<Rightarrow> int \<Rightarrow> string option \<times> Workspace" where
  "getValueTwoPart cfg fs ws bank addr =
     getValue cfg fs (after_ensure cfg fs ws bank) bank 1 addr"

definition includeFile :: "fsys \<Rightarrow> string \<Rightarrow> string" where
  "includeFile fs name =
     (case fs (path_join ''files'' name) of
        Absent \<Rightarrow> ''[Missing file: '' @ name @ '']''
      | Locked \<Rightarrow> ''[Cannot open file: '' @ name @ '']''
      | File text \<Rightarrow> text)"

subsection \<open>The five patterns\<close>

text \<open>
  Each \<^verbatim>\<open>std::regex\<close> is written out as a matcher for a match that starts at the
  head of the string; it returns the groups and the text after the match.
  \<open>run1 P\<close> is the greedy \<^verbatim>\<open>[...]+\<close>. In the patterns below a shorter run
  is always followed by a character of the same class, where the pattern wants a
  dot or a parenthesis, so backtracking into a run never finds another match;
  the one exception is the negative lookahead of the two-part pattern.
\<close>

definition lit :: "char \<Rightarrow> string \<Rightarrow> string option" where
  "lit c s = (case s of [] \<Rightarrow> None | d # r \<Rightarrow> if d = c then Some r else None)"

definition run1 :: "(char \<Rightarrow> bool) \<Rightarrow> string \<Rightarrow> (string \<times> string) option" where
  "run1 P s = (if takeWhile P s = [] then None else Some (takeWhile P s, dropWhile P s))"

text \<open>\<^verbatim>\<open>@file\(([^)]+)\)\<close>: the token is the file name, group 1.\<close>

definition match_file :: "string \<Rightarrow> (string \<times> string) option" where
  "match_file s =
     (if take 6 s = ''@file('' then
        do { (name, s1) \<leftarrow> run1 (\<lambda>c. c \<noteq> CHR '')'') (drop 6 s);
             s2 \<leftarrow> lit CHR '')'' s1;
             Some (name, s2) }
      else None)"

text \<open>
  A reference token: the whole match \<^verbatim>\<open>m[0]\<close> and the groups \<^verbatim>\<open>m[1]\<close>,
  \<^verbatim>\<open>m[2]\<close>, ... in order.
\<close>

record token =
  whole :: string
  groups :: "string list"

text \<open>\<^verbatim>\<open>r([0-9A-Za-z]+)\.([0-9A-Za-z]+)\<close>\<close>

definition match_same :: "string \<Rightarrow> (token \<times> string) option" where
  "match_same s =
     do { s1 \<leftarrow> lit CHR ''r'' s;
          (g1, s2) \<leftarrow> run1 isalnum s1;
          s3 \<leftarrow> lit CHR ''.'' s2;
          (g2, s4) \<leftarrow> run1 isalnum s3;
          Some (\<lparr>whole = ''r'' @ g1 @ ''.'' @ g2, groups = [g1, g2]\<rparr>, s4) }"

text \<open>
  The characters with a meaning of their own in an ECMAScript pattern. The
  three-part pattern is built by putting the configured prefix in front of a
  fixed pattern text, so it is the pattern meant only for other prefixes: with
  one of these the constructor throws \<^verbatim>\<open>std::regex_error\<close> or builds another
  pattern. The model follows the source for the other prefixes and stops with
  \<open>PatternPrefix\<close> for these.
\<close>

definition regex_special :: "char \<Rightarrow> bool" where
  "regex_special c = (c \<in> set (CHR 0x5C # ''^$.*+?()[]{}|''))"

text \<open>\<^verbatim>\<open><prefix>([0-9A-Za-z]+)\.([0-9A-Za-z]+)\.([0-9A-Za-z]+)\<close>\<close>

definition match_pref3 :: "char \<Rightarrow> string \<Rightarrow> (token \<times> string) option" where
  "match_pref3 pf s =
     do { s1 \<leftarrow> lit pf s;
          (g1, s2) \<leftarrow> run1 isalnum s1;
          s3 \<leftarrow> lit CHR ''.'' s2;
          (g2, s4) \<leftarrow> run1 isalnum s3;
          s5 \<leftarrow> lit CHR ''.'' s4;
          (g3, s6) \<leftarrow> run1 isalnum s5;
          Some (\<lparr>whole = [pf] @ g1 @ ''.'' @ g2 @ ''.'' @ g3, groups = [g1, g2, g3]\<rparr>, s6) }"

text \<open>
  \<^verbatim>\<open>([A-Za-z])([0-9A-Za-z]+)\.([0-9A-Za-z]+)(?!\.)\<close>. When the greedy third
  group is followed by a dot, the matcher gives back its last character, after
  which the lookahead sees that character and succeeds; a third group of one
  character cannot shrink, and then nothing matches here.
\<close>

definition match_two :: "string \<Rightarrow> (token \<times> string) option" where
  "match_two s =
     (case s of
        [] \<Rightarrow> None
      | c # s1 \<Rightarrow>
          if \<not> isalpha c then None
          else
            do { (g2, s2) \<leftarrow> run1 isalnum s1;
                 s3 \<leftarrow> lit CHR ''.'' s2;
                 (g3, s4) \<leftarrow> run1 isalnum s3;
                 if s4 \<noteq> [] \<and> hd s4 = CHR ''.'' then
                   (if length g3 < 2 then None
                    else Some (\<lparr>whole = [c] @ g2 @ ''.'' @ butlast g3,
                                 groups = [[c], g2, butlast g3]\<rparr>, last g3 # s4))
                 else Some (\<lparr>whole = [c] @ g2 @ ''.'' @ g3, groups = [[c], g2, g3]\<rparr>, s4) })"

text \<open>\<^verbatim>\<open>(\d+)\.(\d+)\.(\d+)\<close>\<close>

definition match_tri :: "string \<Rightarrow> (token \<times> string) option" where
  "match_tri s =
     do { (g1, s2) \<leftarrow> run1 isdigit s;
          s3 \<leftarrow> lit CHR ''.'' s2;
          (g2, s4) \<leftarrow> run1 isdigit s3;
          s5 \<leftarrow> lit CHR ''.'' s4;
          (g3, s6) \<leftarrow> run1 isdigit s5;
          Some (\<lparr>whole = g1 @ ''.'' @ g2 @ ''.'' @ g3, groups = [g1, g2, g3]\<rparr>, s6) }"

subsection \<open>One pass over the string\<close>

text \<open>
  The \<^verbatim>\<open>while (std::regex_search(...))\<close> loop of a pass cuts the string, which
  the pass does not change, into matches and the characters between them: the
  leftmost match first, then on from its end. \<open>Tok p t\<close> is a match \<open>t\<close> with
  the character \<open>p\<close> in front of it (\<^verbatim>\<open>s[pos - 1]\<close>), if there is one.

  Every pattern matches at least one character, so the text left after a match
  is shorter; the test for it makes the recursion well-founded for any matcher.
\<close>

datatype 'a seg = Lit char | Tok "char option" 'a

function scan :: "(string \<Rightarrow> ('a \<times> string) option) \<Rightarrow> char option \<Rightarrow> string \<Rightarrow> 'a seg list" where
  "scan m prev [] = []"
| "scan m prev (c # cs) =
     (case m (c # cs) of
        None \<Rightarrow> Lit c # scan m (Some c) cs
      | Some (t, rest) \<Rightarrow>
          if length rest < length (c # cs)
          then Tok prev t # scan m (Some (last (take (length (c # cs) - length rest) (c # cs)))) rest
          else Lit c # scan m (Some c) cs)"
  by pat_completeness auto
termination
  by (relation "measure (\<lambda>(m, prev, s). length s)") auto

declare scan.simps [simp del]

datatype error = NoFuel | OutOfRange | PatternPrefix

type_synonym 'a result = "error + 'a"

text \<open>
  The output of a pass: the characters between matches are copied, each match is
  replaced by what the handler returns for it; the workspace goes from one
  handler call to the next, and an exception ends the pass.
\<close>

fun run_pass :: "(char option \<Rightarrow> 'a \<Rightarrow> Workspace \<Rightarrow> (string \<times> Workspace) result)
                   \<Rightarrow> 'a seg list \<Rightarrow> Workspace \<Rightarrow> (string \<times> Workspace) result" where
  "run_pass h [] ws = Inr ([], ws)"
| "run_pass h (Lit c # segs) ws =
     (case run_pass h segs ws of
        Inl e \<Rightarrow> Inl e
      | Inr (out, ws') \<Rightarrow> Inr (c # out, ws'))"
| "run_pass h (Tok p t # segs) ws =
     (case h p t ws of
        Inl e \<Rightarrow> Inl e
      | Inr (r, ws1) \<Rightarrow>
          (case run_pass h segs ws1 of
             Inl e \<Rightarrow> Inl e
           | Inr (out, ws2) \<Rightarrow> Inr (r @ out, ws2)))"

subsection \<open>Keys, numbers and the handlers of the passes\<close>

text \<open>\<^verbatim>\<open>std::to_string(long long)\<close>\<close>

fun dec_nat :: "nat \<Rightarrow> string" where
  "dec_nat n = (if n < 10 then [digitChar (int n)]
                else dec_nat (n div 10) @ [digitChar (int (n mod 10))])"

declare dec_nat.simps [simp del]

definition to_string :: "int \<Rightarrow> string" where
  "to_string i = (if i < 0 then CHR ''-'' # dec_nat (nat (- i)) else dec_nat (nat i))"

text \<open>
  \<^verbatim>\<open>std::stoll\<close> on a string of decimal digits: it throws
  \<^verbatim>\<open>std::out_of_range\<close> when the number does not fit a \<^verbatim>\<open>long long\<close>.
\<close>

definition stoll :: "string \<Rightarrow> int result" where
  "stoll s =
     (let v = foldl (\<lambda>acc c. acc * 10 + digitValue c) 0 s
      in if LLONG_MAX < v then Inl OutOfRange else Inr v)"

type_synonym resolver = "string \<Rightarrow> int \<Rightarrow> string set \<Rightarrow> Workspace \<Rightarrow> (string \<times> Workspace) result"

text \<open>
  What every pass does with a target that parsed: the circular marker if the key
  is in the visited set, else the missing marker if the cell is not there, else
  the resolved value of the cell, with the key added to a copy of the set.
\<close>

definition expand :: "resolver \<Rightarrow> string set \<Rightarrow> string \<Rightarrow> string \<Rightarrow> int
                        \<Rightarrow> string option \<times> Workspace \<Rightarrow> Workspace \<Rightarrow> (string \<times> Workspace) result" where
  "expand rec visited key tok bank looked ws =
     (if key \<in> visited then Inr (''[Circular Ref: '' @ tok @ '']'', ws)
      else case looked of
             (None, ws1) \<Rightarrow> Inr (''[Missing '' @ tok @ '']'', ws1)
           | (Some v, ws1) \<Rightarrow> rec v bank (insert key visited) ws1)"

definition same_handler :: "resolver \<Rightarrow> Config \<Rightarrow> fsys \<Rightarrow> int \<Rightarrow> string set
                              \<Rightarrow> char option \<Rightarrow> token \<Rightarrow> Workspace \<Rightarrow> (string \<times> Workspace) result" where
  "same_handler rec cfg fs currentBank visited prev m ws =
     (case (parseIntBase (groups m ! 0) (base cfg), parseIntBase (groups m ! 1) (base cfg)) of
        (Some r, Some a) \<Rightarrow>
          expand rec visited
            (to_string currentBank @ ''.'' @ to_string r @ ''.'' @ to_string a)
            (whole m) currentBank (getValue cfg fs ws currentBank r a) ws
      | _ \<Rightarrow> Inr (''[BadRef '' @ whole m @ '']'', ws))"

definition pref3_handler :: "resolver \<Rightarrow> Config \<Rightarrow> fsys \<Rightarrow> string set
                              \<Rightarrow> char option \<Rightarrow> token \<Rightarrow> Workspace \<Rightarrow> (string \<times> Workspace) result" where
  "pref3_handler rec cfg fs visited prev m ws =
     (case (parseIntBase (groups m ! 0) (base cfg), parseIntBase (groups m ! 1) (base cfg),
            parseIntBase (groups m ! 2) (base cfg)) of
        (Some b, Some r, Some a) \<Rightarrow>
          expand rec visited
            ([prefix cfg] @ groups m ! 0 @ ''.'' @ groups m ! 1 @ ''.'' @ groups m ! 2)
            (whole m) b (getValue cfg fs ws b r a) ws
      | _ \<Rightarrow> Inr (whole m, ws))"

definition two_handler :: "resolver \<Rightarrow> Config \<Rightarrow> fsys \<Rightarrow> string set
                              \<Rightarrow> char option \<Rightarrow> token \<Rightarrow> Workspace \<Rightarrow> (string \<times> Workspace) result" where
  "two_handler rec cfg fs visited prev m ws =
     (if groups m ! 0 \<noteq> [prefix cfg] then Inr (whole m, ws)
      else
        case (parseIntBase (groups m ! 1) (base cfg), parseIntBase (groups m ! 2) (base cfg)) of
          (Some b, Some a) \<Rightarrow>
            expand rec visited
              (groups m ! 0 @ groups m ! 1 @ ''.'' @ groups m ! 2)
              (whole m) b (getValueTwoPart cfg fs ws b a) ws
        | _ \<Rightarrow> Inr (''[BadRef '' @ whole m @ '']'', ws))"

definition tri_handler :: "resolver \<Rightarrow> Config \<Rightarrow> fsys \<Rightarrow> string set
                              \<Rightarrow> char option \<Rightarrow> token \<Rightarrow> Workspace \<Rightarrow> (string \<times> Workspace) result" where
  "tri_handler rec cfg fs visited prev m ws =
     (if (case prev of None \<Rightarrow> False | Some p \<Rightarrow> isalnum p) then Inr (whole m, ws)
      else
        case stoll (groups m ! 0) of Inl e \<Rightarrow> Inl e | Inr b \<Rightarrow>
        case stoll (groups m ! 1) of Inl e \<Rightarrow> Inl e | Inr r \<Rightarrow>
        case stoll (groups m ! 2) of Inl e \<Rightarrow> Inl e | Inr a \<Rightarrow>
          expand rec visited
            (to_string b @ ''.'' @ to_string r @ ''.'' @ to_string a)
            (whole m) b (getValue cfg fs ws b r a) ws)"

subsection \<open>\<^verbatim>\<open>Resolver::resolve\<close>\<close>

text \<open>The first pass only reads files.\<close>

fun file_pass :: "fsys \<Rightarrow> string seg list \<Rightarrow> string" where
  "file_pass fs [] = []"
| "file_pass fs (Lit c # segs) = c # file_pass fs segs"
| "file_pass fs (Tok p name # segs) = includeFile fs (trim name) @ file_pass fs segs"

text \<open>
  The four passes after the file pass. Each works on the whole output of the
  one before; \<open>rec\<close> is \<^verbatim>\<open>resolve\<close> itself, called for the value of a cell.
\<close>

definition same_pass :: "resolver \<Rightarrow> Config \<Rightarrow> fsys \<Rightarrow> int \<Rightarrow> string set
                           \<Rightarrow> string \<Rightarrow> Workspace \<Rightarrow> (string \<times> Workspace) result" where
  "same_pass rec cfg fs currentBank visited s ws =
     run_pass (same_handler rec cfg fs currentBank visited) (scan match_same None s) ws"

definition pref3_pass :: "resolver \<Rightarrow> Config \<Rightarrow> fsys \<Rightarrow> string set
                           \<Rightarrow> string \<Rightarrow> Workspace \<Rightarrow> (string \<times> Workspace) result" where
  "pref3_pass rec cfg fs visited s ws =
     (if regex_special (prefix cfg) then Inl PatternPrefix
      else run_pass (pref3_handler rec cfg fs visited) (scan (match_pref3 (prefix cfg)) None s) ws)"

definition two_pass :: "resolver \<Rightarrow> Config \<Rightarrow> fsys \<Rightarrow> string set
                           \<Rightarrow> string \<Rightarrow> Workspace \<Rightarrow> (string \<times> Workspace) result" where
  "two_pass rec cfg fs visited s ws =
     run_pass (two_handler rec cfg fs visited) (scan match_two None s) ws"

definition tri_pass :: "resolver \<Rightarrow> Config \<Rightarrow> fsys \<Rightarrow> string set
                           \<Rightarrow> string \<Rightarrow> Workspace \<Rightarrow> (string \<times> Workspace) result" where
  "tri_pass rec cfg fs visited s ws =
     run_pass (tri_handler rec cfg fs visited) (scan match_tri None s) ws"

definition cell_passes :: "resolver \<Rightarrow> Config \<Rightarrow> fsys \<Rightarrow> string \<Rightarrow> int \<Rightarrow> string set
                             \<Rightarrow> Workspace \<Rightarrow> (string \<times> Workspace) result" where
  "cell_passes rec cfg fs s1 currentBank visited ws =
     (case same_pass rec cfg fs currentBank visited s1 ws of
        Inl e \<Rightarrow> Inl e
      | Inr (s2, ws2) \<Rightarrow>
     (case pref3_pass rec cfg fs visited s2 ws2 of
        Inl e \<Rightarrow> Inl e
      | Inr (s3, ws3) \<Rightarrow>
     (case two_pass rec cfg fs visited s3 ws3 of
        Inl e \<Rightarrow> Inl e
      | Inr (s4, ws4) \<Rightarrow> tri_pass rec cfg fs visited s4 ws4)))"

text \<open>
  \<^verbatim>\<open>resolve\<close> calls itself for the value of every cell it expands, and nothing
  in the source bounds the depth, so the model counts the depth down: \<open>Inl NoFuel\<close>
  says that the given depth was not enough.
\<close>

primrec resolve :: "nat \<Rightarrow> Config \<Rightarrow> fsys \<Rightarrow> string \<Rightarrow> int \<Rightarrow> string set
                      \<Rightarrow> Workspace \<Rightarrow> (string \<times> Workspace) result" where
  "resolve 0 cfg fs input currentBank visited ws = Inl NoFuel"
| "resolve (Suc n) cfg fs input currentBank visited ws =
     cell_passes (resolve n cfg fs) cfg fs
       (file_pass fs (scan match_file None input)) currentBank visited ws"

section \<open>The plugin kernel\<close>

record PluginManifest =
  name :: string
  entry_win :: string
  entry_lin :: string
  dir :: string

text \<open>
  What the kernel sees of the outside: the regular files, the directories it has
  made, which directories cannot be made and which files cannot be opened for
  writing, and the command lines handed to \<^verbatim>\<open>std::system\<close> so far.
\<close>

record world =
  files :: fsys
  dirs :: "string list"
  mkdir_fails :: "string \<Rightarrow> bool"
  open_fails :: "string \<Rightarrow> bool"
  spawned :: "string list"

text \<open>
  The child process: from the command line and the files it finds to the value
  \<^verbatim>\<open>std::system\<close> returns and the files it leaves (the shell's redirections to
  \<^verbatim>\<open>run.log\<close> and \<^verbatim>\<open>run.err\<close> are part of the command).
\<close>

type_synonym process = "string \<Rightarrow> fsys \<Rightarrow> int \<times> fsys"

definition DQ :: char where "DQ = CHR 0x22"
definition BSL :: char where "BSL = CHR 0x5C"

definition readTextFile :: "fsys \<Rightarrow> string \<Rightarrow> string option" where
  "readTextFile fs p = (case fs p of File text \<Rightarrow> Some text | _ \<Rightarrow> None)"

definition exists_path :: "world \<Rightarrow> string \<Rightarrow> bool" where
  "exists_path w p = (files w p \<noteq> Absent \<or> p \<in> set (dirs w))"

definition parent_path :: "string \<Rightarrow> string" where
  "parent_path p =
     (case rfind_char CHR ''/'' p of
        None \<Rightarrow> []
      | Some i \<Rightarrow> if i = 0 then ''/'' else take i p)"

text \<open>\<^verbatim>\<open>fs::create_directories\<close> throws when it cannot make the directory.\<close>

datatype kernel_error = Resolve error | FilesystemError

definition create_directories :: "world \<Rightarrow> string \<Rightarrow> kernel_error + world" where
  "create_directories w p =
     (if p \<in> set (dirs w) then Inr w
      else if mkdir_fails w p then Inl FilesystemError
      else Inr (w\<lparr>dirs := p # dirs w\<rparr>))"

definition writeTextFile :: "world \<Rightarrow> string \<Rightarrow> string \<Rightarrow> kernel_error + (bool \<times> world)" where
  "writeTextFile w p s =
     (case create_directories w (parent_path p) of
        Inl e \<Rightarrow> Inl e
      | Inr w1 \<Rightarrow>
          if open_fails w1 p then Inr (False, w1)
          else Inr (True, w1\<lparr>files := (files w1)(p := File s)\<rparr>))"

definition hexDigit :: "nat \<Rightarrow> char" where
  "hexDigit d = (if d < 10 then char_of (48 + d) else char_of (55 + d))"

definition jsonEscape_char :: "char \<Rightarrow> string" where
  "jsonEscape_char c =
     (if c = BSL then [BSL, BSL]
      else if c = DQ then [BSL, DQ]
      else if c = CHR 0x08 then [BSL, CHR ''b'']
      else if c = CHR 0x0C then [BSL, CHR ''f'']
      else if c = NL then [BSL, CHR ''n'']
      else if c = CHR 0x0D then [BSL, CHR ''r'']
      else if c = TAB then [BSL, CHR ''t'']
      else if of_char c < (32 :: nat)
        then [BSL, CHR ''u'', CHR ''0'', CHR ''0'',
              hexDigit (of_char c div 16), hexDigit (of_char c mod 16)]
      else [c])"

definition jsonEscape :: "string \<Rightarrow> string" where
  "jsonEscape s = concat (map jsonEscape_char s)"

definition findPlugin :: "string \<Rightarrow> PluginManifest list \<Rightarrow> PluginManifest option" where
  "findPlugin nm plugins = List.find (\<lambda>p. name p = nm) plugins"

text \<open>The paths of lines 136 to 153; \<open>cwd\<close> is what \<^verbatim>\<open>fs::absolute\<close> puts in front.\<close>

record layout =
  outdir :: string
  absOutdir :: string
  entryPath :: string
  codeFile :: string
  inputFile :: string
  outputFile :: string
  logFile :: string
  errFile :: string

definition selected_entry :: "bool \<Rightarrow> PluginManifest \<Rightarrow> string" where
  "selected_entry kWindows P = (if kWindows then entry_win P else entry_lin P)"

definition bankStr :: "Config \<Rightarrow> int \<Rightarrow> string" where
  "bankStr cfg bank = prefix cfg # toBaseN bank (base cfg) (widthBank cfg)"

definition plugin_layout :: "bool \<Rightarrow> string \<Rightarrow> Config \<Rightarrow> PluginManifest \<Rightarrow> string
                               \<Rightarrow> int \<Rightarrow> int \<Rightarrow> int \<Rightarrow> layout" where
  "plugin_layout kWindows cwd cfg P nm bank reg addr =
     (let regStr = toBaseN reg (base cfg) (widthReg cfg);
          addrStr = toBaseN addr (base cfg) (widthAddr cfg);
          od = path_join (path_join (path_join ''files/out/plugins'' (bankStr cfg bank))
                            (''r'' @ regStr @ ''a'' @ addrStr)) nm;
          aod = path_join cwd od
      in \<lparr>outdir = od, absOutdir = aod,
          entryPath = path_join cwd (path_join (dir P) (selected_entry kWindows P)),
          codeFile = path_join aod ''code.txt'',
          inputFile = path_join aod ''input.json'',
          outputFile = path_join aod ''output.json'',
          logFile = path_join aod ''run.log'',
          errFile = path_join aod ''run.err''\<rparr>)"

record run_result =
  ok :: bool
  out_json :: "string option"
  out_report :: string

definition failure :: "string \<Rightarrow> run_result" where
  "failure report = \<lparr>ok = False, out_json = None, out_report = report\<rparr>"

definition stdin_text :: "world \<Rightarrow> string \<Rightarrow> string" where
  "stdin_text w stdin_json_or_path =
     (let stdin_json =
            (if stdin_json_or_path = [] then ''{}''
             else if exists_path w stdin_json_or_path then
               (case readTextFile (files w) stdin_json_or_path of
                  None \<Rightarrow> ''{}''
                | Some text \<Rightarrow> text)
             else stdin_json_or_path)
      in if stdin_json = [] then ''{}'' else stdin_json)"

definition json_line :: "string \<Rightarrow> string \<Rightarrow> string" where
  "json_line key val =
     ''  '' @ [DQ] @ key @ [DQ] @ '': '' @ [DQ] @ jsonEscape val @ [DQ] @ '','' @ [NL]"

definition input_json :: "Config \<Rightarrow> int \<Rightarrow> int \<Rightarrow> int \<Rightarrow> string \<Rightarrow> string \<Rightarrow> string \<Rightarrow> string" where
  "input_json cfg bank reg addr ttl code_file stdin_json =
     ''{'' @ [NL]
     @ json_line ''bank'' (bankStr cfg bank)
     @ json_line ''reg'' (toBaseN reg (base cfg) (widthReg cfg))
     @ json_line ''addr'' (toBaseN addr (base cfg) (widthAddr cfg))
     @ json_line ''title'' ttl
     @ json_line ''code_file'' code_file
     @ ''  '' @ [DQ] @ ''stdin'' @ [DQ] @ '': '' @ stdin_json @ [NL]
     @ ''}'' @ [NL]"

text \<open>
  \<^verbatim>\<open>ws.banks[bank].title\<close>: the subscript puts an empty bank into the map when
  there is none.
\<close>

definition bank_title :: "Workspace \<Rightarrow> int \<Rightarrow> string \<times> Workspace" where
  "bank_title ws bank =
     (case map_of (banks ws) bank of
        Some b \<Rightarrow> (title b, ws)
      | None \<Rightarrow> ([], ws\<lparr>banks := map_put bank empty_Bank (banks ws)\<rparr>))"

definition command :: "bool \<Rightarrow> layout \<Rightarrow> string" where
  "command kWindows L =
     (let q = (\<lambda>s. [DQ] @ s @ [DQ]);
          inner = q (entryPath L) @ '' '' @ q (inputFile L) @ '' '' @ q (absOutdir L)
                    @ '' > '' @ q (logFile L) @ '' 2> '' @ q (errFile L)
      in if kWindows then ''cmd.exe /S /C '' @ [DQ] @ inner @ [DQ]
         else ''/bin/sh -c '' @ [CHR 0x27] @ inner @ [CHR 0x27])"

text \<open>
  \<^verbatim>\<open>Kernel::run\<close> up to the point where it starts the child: either it has
  returned (\<open>Early\<close>), or everything is in place (\<open>Ready\<close>).
\<close>

datatype prepared = Early run_result | Ready layout

definition prepare :: "nat \<Rightarrow> bool \<Rightarrow> string \<Rightarrow> Config \<Rightarrow> PluginManifest list \<Rightarrow> string
                         \<Rightarrow> int \<Rightarrow> int \<Rightarrow> int \<Rightarrow> string \<Rightarrow> Workspace \<Rightarrow> world
                         \<Rightarrow> kernel_error + (prepared \<times> Workspace \<times> world)" where
  "prepare fuel kWindows cwd cfg plugins nm bank reg addr stdin_json_or_path ws w =
     (case findPlugin nm plugins of
        None \<Rightarrow> Inr (Early (failure (''Plugin not found: '' @ nm)), ws, w)
      | Some P \<Rightarrow>
          (case getValue cfg (files w) (after_ensure cfg (files w) ws bank) bank reg addr of
             (None, ws2) \<Rightarrow>
               Inr (Early (failure (''No value at reg '' @ to_string reg
                                      @ '' addr '' @ to_string addr)), ws2, w)
           | (Some raw, ws2) \<Rightarrow>
               (case resolve fuel cfg (files w) raw bank {} ws2 of
                  Inl e \<Rightarrow> Inl (Resolve e)
                | Inr (code, ws3) \<Rightarrow>
                    let L = plugin_layout kWindows cwd cfg P nm bank reg addr in
                    (case create_directories w (outdir L) of
                       Inl e \<Rightarrow> Inl e
                     | Inr w1 \<Rightarrow>
                         if selected_entry kWindows P = [] then
                           Inr (Early (failure ''Plugin entry not set in manifest.''), ws3, w1)
                         else if \<not> exists_path w1 (entryPath L) then
                           Inr (Early (failure (''Entry not found: '' @ entryPath L)), ws3, w1)
                         else
                           (case writeTextFile w1 (codeFile L) code of
                              Inl e \<Rightarrow> Inl e
                            | Inr (False, w2) \<Rightarrow>
                                Inr (Early (failure (''Cannot write '' @ codeFile L)), ws3, w2)
                            | Inr (True, w2) \<Rightarrow>
                                let stdin_json = stdin_text w2 stdin_json_or_path;
                                    tw = bank_title ws3 bank;
                                    text = input_json cfg bank reg addr (fst tw) (codeFile L) stdin_json
                                in (case writeTextFile w2 (inputFile L) text of
                                      Inl e \<Rightarrow> Inl e
                                    | Inr (False, w3) \<Rightarrow>
                                        Inr (Early (failure (''Cannot write '' @ inputFile L)),
                                             snd tw, w3)
                                    | Inr (True, w3) \<Rightarrow> Inr (Ready L, snd tw, w3)))))))"

text \<open>Lines 222 to 240: what \<^verbatim>\<open>run\<close> returns once the child has exited.\<close>

definition collect :: "layout \<Rightarrow> int \<Rightarrow> fsys \<Rightarrow> run_result" where
  "collect L ec fs =
     (let errtxt = (case readTextFile fs (errFile L) of None \<Rightarrow> [] | Some t \<Rightarrow> t);
          logtxt = (case readTextFile fs (logFile L) of None \<Rightarrow> [] | Some t \<Rightarrow> t)
      in case readTextFile fs (outputFile L) of
           None \<Rightarrow>
             failure (''Plugin did not produce output.json. Exit='' @ to_string ec
                      @ (if errtxt = [] then [] else [NL] @ ''err:'' @ [NL] @ errtxt))
         | Some outContent \<Rightarrow>
             \<lparr>ok = True, out_json = Some outContent,
              out_report = ''exit='' @ to_string ec @ [NL]
                 @ (if logtxt \<noteq> [] then ''log:'' @ [NL] @ logtxt @ [NL] else [])
                 @ (if errtxt \<noteq> [] then ''stderr:'' @ [NL] @ errtxt @ [NL] else [])\<rparr>)"

text \<open>
  The Windows build leaves the command in \<^verbatim>\<open>run.cmd\<close> before it runs it; the
  result of that write is not looked at.
\<close>

definition breadcrumb :: "bool \<Rightarrow> layout \<Rightarrow> world \<Rightarrow> kernel_error + world" where
  "breadcrumb kWindows L w =
     (if kWindows then
        (case writeTextFile w (path_join (absOutdir L) ''run.cmd'')
                (''@echo off'' @ [CHR 0x0D, NL] @ command kWindows L @ [CHR 0x0D, NL]) of
           Inl e \<Rightarrow> Inl e
         | Inr (written, w1) \<Rightarrow> Inr w1)
      else Inr w)"

definition run :: "nat \<Rightarrow> bool \<Rightarrow> string \<Rightarrow> process \<Rightarrow> Config \<Rightarrow> PluginManifest list \<Rightarrow> string
                     \<Rightarrow> int \<Rightarrow> int \<Rightarrow> int \<Rightarrow> string \<Rightarrow> Workspace \<Rightarrow> world
                     \<Rightarrow> kernel_error + (run_result \<times> Workspace \<times> world)" where
  "run fuel kWindows cwd proc cfg plugins nm bank reg addr stdin_json_or_path ws w =
     (case prepare fuel kWindows cwd cfg plugins nm bank reg addr stdin_json_or_path ws w of
        Inl e \<Rightarrow> Inl e
      | Inr (Early res, ws', w') \<Rightarrow> Inr (res, ws', w')
      | Inr (Ready L, ws', w') \<Rightarrow>
          (case breadcrumb kWindows L w' of
             Inl e \<Rightarrow> Inl e
           | Inr w1 \<Rightarrow>
               let cmd = command kWindows L;
                   r = proc cmd (files w1)
               in Inr (collect L (fst r) (snd r), ws',
                       w1\<lparr>files := snd r, spawned := spawned w1 @ [cmd]\<rparr>)))"

section \<open>Relations between the workspace before and after a call\<close>




section \<open>Stores and files used as examples\<close>

definition store7 :: Workspace where
  "store7 = \<lparr>banks = [(1, \<lparr>bank_id = 1, title = ''t'', regs = [(1, [(1, ''r1.0001'')])]\<rparr>)],
           filenames = []\<rparr>"

definition disk6 :: fsys where
  "disk6 = (\<lambda>p. if p = ''files/inc.txt'' then File ''r1.1'' else Absent)"

definition store6 :: Workspace where
  "store6 = \<lparr>banks = [(1, \<lparr>bank_id = 1, title = ''t'', regs = [(1, [(1, ''hello'')])]\<rparr>)],
           filenames = []\<rparr>"



definition empty_store :: Workspace where
  "empty_store = \<lparr>banks = [], filenames = []\<rparr>"


definition store_cyc :: Workspace where
  "store_cyc = \<lparr>banks = [(1, \<lparr>bank_id = 1, title = ''t'',
                           regs = [(1, [(1, ''a r1.1''), (2, ''b x01.1.2''), (3, ''c'')])]\<rparr>)],
           filenames = []\<rparr>"

definition no_files :: fsys where
  "no_files = (\<lambda>p. Absent)"








section \<open>Banks that survive the text format, and the lines of a written bank\<close>

text \<open>
  The format has no escapes: a line ends at a newline and the body ends at the
  first line with a closing brace; an identifier is written without a sign.
  \<open>storable\<close> says that a bank stays inside these limits; the maps are in
  ascending key order, as a \<^verbatim>\<open>std::map\<close> is.
\<close>

definition plain_cells :: "string lmap \<Rightarrow> bool" where
  "plain_cells addrs =
     (\<forall>av \<in> set addrs. in_range (fst av) \<and> NL \<notin> set (snd av) \<and> CHR ''}'' \<notin> set (snd av))"

definition storable :: "Bank \<Rightarrow> bool" where
  "storable b =
     (in_range (bank_id b) \<and> NL \<notin> set (title b) \<and> ascending (regs b)
      \<and> (\<forall>ra \<in> set (regs b). in_range (fst ra) \<and> ascending (snd ra) \<and> plain_cells (snd ra)))"

text \<open>
  The text \<open>writeBankText\<close> produces, line by line, and what \<open>parse_body\<close> builds
  from the lines of a register: used to state the steps of the round trip.
\<close>

definition unlines :: "string list \<Rightarrow> string" where
  "unlines ls = concat (map (\<lambda>l. l @ [NL]) ls)"

definition aline :: "Config \<Rightarrow> int \<times> string \<Rightarrow> string" where
  "aline cfg e = [TAB] @ toBaseN (fst e) (base cfg) (widthAddr cfg) @ [TAB] @ snd e"

definition reg_lines :: "Config \<Rightarrow> int \<times> string lmap \<Rightarrow> string list" where
  "reg_lines cfg ra = toBaseN (fst ra) (base cfg) (widthReg cfg) # map (aline cfg) (snd ra)"

definition header_rest :: "Bank \<Rightarrow> Config \<Rightarrow> string" where
  "header_rest b cfg =
     toBaseN (bank_id b) (base cfg) (widthBank cfg) @ [TAB] @ ''('' @ title b @ ''){''"

definition body_lines :: "Bank \<Rightarrow> Config \<Rightarrow> string list" where
  "body_lines b cfg =
     (if 1 < length (regs b) \<or> (length (regs b) = 1 \<and> fst (hd (regs b)) \<noteq> 1)
      then concat (map (reg_lines cfg) (regs b))
      else (case map_of (regs b) 1 of None \<Rightarrow> [] | Some addrs \<Rightarrow> map (aline cfg) addrs))"

definition put_addrs :: "int \<Rightarrow> string lmap \<Rightarrow> string lmap lmap \<Rightarrow> string lmap lmap" where
  "put_addrs r addrs rs = foldl (\<lambda>acc av. regs_put r (fst av) (snd av) acc) rs addrs"

definition put_regs :: "string lmap lmap \<Rightarrow> string lmap lmap \<Rightarrow> string lmap lmap" where
  "put_regs src rs = foldl (\<lambda>acc ra. put_addrs (fst ra) (snd ra) acc) rs src"

definition bank_brace :: Bank where
  "bank_brace = \<lparr>bank_id = 1, title = ''t'', regs = [(1, [(1, ''}''), (2, ''kept?'')])]\<rparr>"

definition bank_notes :: Bank where
  "bank_notes = \<lparr>bank_id = 7, title = ''notes (old)'',
                  regs = [(1, [(1, ''see r02.0003''), (5, '' spaced  '')]), (2, [(3, ''World''), (10, [])])]\<rparr>"

section \<open>Round trip of identifiers\<close>

lemma wrap64_id: "0 \<le> x \<Longrightarrow> x < 2 ^ 63 \<Longrightarrow> wrap64 x = x"
  by (simp add: wrap64_def)

lemma digitValue_digitChar:
  assumes "0 \<le> d" "d < 36"
  shows "digitValue (digitChar d) = d"
proof (cases "d < 10")
  case True
  with assms have "(48 + d) mod 256 = 48 + d" by simp
  with True assms show ?thesis
    by (simp add: digitValue_def digitChar_def ord_def)
next
  case False
  with assms have "(87 + d) mod 256 = 87 + d" by simp
  with False assms show ?thesis
    by (simp add: digitValue_def digitChar_def ord_def)
qed

lemma toBaseN_loop_app: "toBaseN_loop v b (s @ t) = s @ toBaseN_loop v b t"
proof (induction v b t arbitrary: s rule: toBaseN_loop.induct)
  case (1 val base t)
  show ?case
  proof (cases "0 < val \<and> 2 \<le> base")
    case True
    have l: "toBaseN_loop val base (s @ t)
               = toBaseN_loop (val div base) base (s @ (t @ [digitChar (val mod base)]))"
      using True by (subst toBaseN_loop.simps) simp
    have r: "toBaseN_loop val base t
               = toBaseN_loop (val div base) base (t @ [digitChar (val mod base)])"
      using True by (subst toBaseN_loop.simps) simp
    show ?thesis
      unfolding l r using "1.IH" [OF True] .
  next
    case False
    have l: "toBaseN_loop val base (s @ t) = s @ t"
      using False by (subst toBaseN_loop.simps) auto
    have r: "toBaseN_loop val base t = t"
      using False by (subst toBaseN_loop.simps) auto
    show ?thesis unfolding l r ..
  qed
qed

lemma toBaseN_loop_step:
  "0 < v \<Longrightarrow> 2 \<le> b \<Longrightarrow>
   toBaseN_loop v b [] = digitChar (v mod b) # toBaseN_loop (v div b) b []"
  using toBaseN_loop_app [of "v div b" b "[digitChar (v mod b)]" "[]"]
  by (subst toBaseN_loop.simps) simp

lemma toBaseN_loop_nonpos: "v \<le> 0 \<Longrightarrow> toBaseN_loop v b s = s"
  by (subst toBaseN_loop.simps) simp

lemma parseIntBase_loop_snoc:
  "parseIntBase_loop (xs @ [c]) b acc =
     (case parseIntBase_loop xs b acc of None \<Rightarrow> None
      | Some v \<Rightarrow> parseIntBase_loop [c] b v)"
  by (induction xs arbitrary: acc) (simp_all add: Let_def)

lemma parse_rev_digits:
  "0 \<le> v \<Longrightarrow> v < 2 ^ 63 \<Longrightarrow> 2 \<le> b \<Longrightarrow> b \<le> 36 \<Longrightarrow>
   parseIntBase_loop (rev (toBaseN_loop v b [])) b 0 = Some v"
proof (induction "nat v" arbitrary: v rule: less_induct)
  case (less v)
  show ?case
  proof (cases "v = 0")
    case True
    then show ?thesis by (simp add: toBaseN_loop_nonpos)
  next
    case False
    with less.prems have pos: "0 < v" by simp
    have lt: "v div b < v" using pos less.prems by (simp add: int_div_less_self)
    have nn: "0 \<le> v div b" using pos less.prems by (simp add: pos_imp_zdiv_nonneg_iff)
    have ih: "parseIntBase_loop (rev (toBaseN_loop (v div b) b [])) b 0 = Some (v div b)"
      using less.hyps [of "v div b"] lt nn less.prems by simp
    have d0: "0 \<le> v mod b" "v mod b < b" using less.prems by simp_all
    then have d: "0 \<le> v mod b" "v mod b < b" "v mod b < 36" using less.prems by linarith+
    have dv: "digitValue (digitChar (v mod b)) = v mod b"
      using d by (simp add: digitValue_digitChar)
    have w: "wrap64 (v div b * b + v mod b) = v"
      using less.prems by (simp add: wrap64_id)
    have g: "\<not> (v mod b < 0 \<or> b \<le> v mod b)" using d by linarith
    have st: "parseIntBase_loop [digitChar (v mod b)] b (v div b) = Some v"
      using g dv w pos by (simp add: Let_def)
    have "toBaseN_loop v b [] = digitChar (v mod b) # toBaseN_loop (v div b) b []"
      using pos less.prems by (simp add: toBaseN_loop_step)
    then show ?thesis
      using ih st by (simp add: parseIntBase_loop_snoc)
  qed
qed

lemma parse_leading_zeros:
  "1 \<le> b \<Longrightarrow> parseIntBase_loop (replicate n CHR ''0'' @ xs) b 0 = parseIntBase_loop xs b 0"
  by (induction n) (simp_all add: digitValue_def ord_def wrap64_def Let_def)

lemma toBaseN_loop_nonempty: "0 < v \<Longrightarrow> 2 \<le> b \<Longrightarrow> toBaseN_loop v b [] \<noteq> []"
  by (simp add: toBaseN_loop_step)

lemma parseIntBase_toBaseN:
  assumes "2 \<le> b" "b \<le> 36" "in_range v"
  shows "parseIntBase (toBaseN v b width) b = Some v"
proof (cases "v = 0")
  case True
  have "replicate (nat (max 1 width)) CHR ''0'' \<noteq> []" by simp
  moreover have "parseIntBase_loop (replicate (nat (max 1 width)) CHR ''0'' @ []) b 0 = Some 0"
    using assms by (subst parse_leading_zeros) simp_all
  ultimately show ?thesis using True
    by (simp add: parseIntBase_def toBaseN_def)
next
  case False
  with assms have pos: "0 < v" by (simp add: in_range_def)
  have lt: "v < 2 ^ 63" using assms by (simp add: LLONG_MAX_def in_range_def)
  let ?s = "rev (toBaseN_loop v b [])"
  have ne: "?s \<noteq> []" using toBaseN_loop_nonempty [OF pos assms(1)] by simp
  have p: "parseIntBase_loop ?s b 0 = Some v"
    using parse_rev_digits assms lt by (simp add: in_range_def)
  have pz: "\<And>n. parseIntBase_loop (replicate n CHR ''0'' @ ?s) b 0 = Some v"
    using p assms by (simp add: parse_leading_zeros)
  show ?thesis
    using pos assms ne p pz
    by (simp add: parseIntBase_def toBaseN_def Let_def)
qed

lemma digitValue_toupper: "digitValue (toupper c) = digitValue c"
proof (cases "97 \<le> ord c \<and> ord c \<le> 122")
  case True
  then have "(ord c - 32) mod 256 = ord c - 32" by simp
  with True show ?thesis
    by (simp add: toupper_def digitValue_def ord_def)
next
  case False
  then have "toupper c = c" unfolding toupper_def by (simp only: if_False)
  then show ?thesis by simp
qed

lemma parseIntBase_loop_toupper:
  "parseIntBase_loop (map toupper s) b acc = parseIntBase_loop s b acc"
  by (induction s arbitrary: acc) (simp_all add: digitValue_toupper Let_def)

lemma parseIntBase_toupper: "parseIntBase (map toupper s) b = parseIntBase s b"
  by (simp add: parseIntBase_def parseIntBase_loop_toupper)

lemma toBaseN_padded: "w \<le> int (length (toBaseN v b w))"
  by (auto simp: toBaseN_def Let_def)

text \<open>
  Claim C4: for every base in 2..36, every minimum width and every non-negative
  value representable as a \<^verbatim>\<open>long long\<close>, parsing the rendering of the value in
  the same base succeeds and gives the value back. The rendering is at least as
  long as the width (padding only adds leading zeros, a wider value is not cut),
  and its digits are lower case, which \<open>parseIntBase\<close> reads like upper case.
\<close>

theorem parseIntBase_toBaseN_roundtrip:
  assumes "2 \<le> b" "b \<le> 36" "0 \<le> v" "v \<le> LLONG_MAX"
  shows "parseIntBase (toBaseN v b width) b = Some v
       \<and> parseIntBase (map toupper (toBaseN v b width)) b = Some v
       \<and> width \<le> int (length (toBaseN v b width))"
  using assms parseIntBase_toBaseN [of b v width]
  by (simp add: in_range_def parseIntBase_toupper toBaseN_padded)

theorem parseIntBase_toBaseN_roundtrip_witness:
  "(2::int) \<le> 16 \<and> (16::int) \<le> 36 \<and> (0::int) \<le> 255 \<and> 255 \<le> LLONG_MAX
   \<and> toBaseN 255 16 4 = ''00ff'' \<and> map toupper ''00ff'' = ''00FF''
   \<and> parseIntBase ''00ff'' 16 = Some 255 \<and> parseIntBase ''00FF'' 16 = Some 255"
proof -
  have h: "(2::int) \<le> 16" "(16::int) \<le> 36" "(0::int) \<le> 255" "255 \<le> LLONG_MAX"
    by (simp_all add: LLONG_MAX_def)
  have e: "toBaseN 255 16 4 = ''00ff''" "map toupper ''00ff'' = ''00FF''" by code_simp+
  show ?thesis
    using h parseIntBase_toBaseN_roundtrip [OF h, of 4] unfolding e by simp
qed

text \<open>
  Claim C10: a base outside 2..36 does not make \<open>toBaseN\<close> fail; it renders in
  base 10 instead. \<open>parseIntBase\<close> has no such replacement: it compares each digit
  with the base it is given, so in a base above 36 the text \<open>10\<close> is read as that
  base, not as ten.
\<close>

theorem toBaseN_bad_base_is_10:
  assumes "b < 2 \<or> 36 < b"
  shows "toBaseN v b w = toBaseN v 10 w
       \<and> (36 < b \<and> b \<le> LLONG_MAX \<longrightarrow> parseIntBase ''10'' b = Some b)"
proof
  show "toBaseN v b w = toBaseN v 10 w"
    using assms by (simp add: toBaseN_def)
  show "36 < b \<and> b \<le> LLONG_MAX \<longrightarrow> parseIntBase ''10'' b = Some b"
    by (simp add: parseIntBase_def digitValue_def ord_def wrap64_def LLONG_MAX_def Let_def)
qed

theorem toBaseN_bad_base_is_10_witness:
  "((40::int) < 2 \<or> (36::int) < 40) \<and> toBaseN 40 40 3 = toBaseN 40 10 3
   \<and> toBaseN 40 10 3 = ''040'' \<and> parseIntBase ''10'' 40 = Some 40"
proof -
  have h: "(40::int) < 2 \<or> (36::int) < 40" by simp
  have e: "toBaseN 40 10 3 = ''040''" by code_simp
  show ?thesis
    using h e toBaseN_bad_base_is_10 [OF h, of 40 3] by (simp add: LLONG_MAX_def)
qed

section \<open>The patterns consume what they match\<close>

text \<open>
  No pattern matches the empty string: the text after a match is always shorter,
  so the test in \<open>scan\<close> never sends a match to its last branch.
\<close>

lemma lit_shorter: "lit c s = Some r \<Longrightarrow> length r < length s"
  by (auto simp: lit_def split: list.splits if_splits)

lemma run1_shorter: "run1 P s = Some (g, r) \<Longrightarrow> length r \<le> length s \<and> g \<noteq> []"
  by (auto simp: run1_def length_dropWhile_le split: if_splits)

lemma match_file_shorter: "match_file s = Some (t, rest) \<Longrightarrow> length rest < length s"
  by (auto simp: match_file_def split: if_splits Option.bind_splits
      dest!: lit_shorter run1_shorter)

lemma match_same_shorter: "match_same s = Some (t, rest) \<Longrightarrow> length rest < length s"
  by (auto simp: match_same_def split: Option.bind_splits dest!: lit_shorter run1_shorter)

lemma match_pref3_shorter: "match_pref3 pf s = Some (t, rest) \<Longrightarrow> length rest < length s"
  by (auto simp: match_pref3_def split: Option.bind_splits dest!: lit_shorter run1_shorter)

lemma match_tri_shorter: "match_tri s = Some (t, rest) \<Longrightarrow> length rest < length s"
  by (auto simp: match_tri_def split: Option.bind_splits dest!: lit_shorter run1_shorter)

lemma match_two_shorter: "match_two s = Some (t, rest) \<Longrightarrow> length rest < length s"
  by (auto simp: match_two_def split: list.splits if_splits Option.bind_splits
      dest!: lit_shorter run1_shorter)


section \<open>Resolution: a self-reference\<close>

lemma after_ensure_loaded:
  "map_of (banks ws) bank \<noteq> None \<Longrightarrow> after_ensure cfg fs ws bank = ws"
  by (simp add: after_ensure_def ensureBankLoadedInWorkspace_def)

lemma cell_loaded: "cell ws bank reg addr = Some v \<Longrightarrow> map_of (banks ws) bank \<noteq> None"
  by (auto simp: cell_def split: option.splits)

lemma getValue_loaded:
  "cell ws bank reg addr = Some v \<Longrightarrow> getValue cfg fs ws bank reg addr = (Some v, ws)"
  by (simp add: getValue_def after_ensure_loaded [OF cell_loaded])

text \<open>
  Claim C7: with the default configuration and a store whose cell (1, 1, 1) holds
  \<open>r1.0001\<close>, resolving that value from bank 1 with an empty visited set gives
  exactly \<open>[Circular Ref: r1.0001]\<close>. The call returns at every depth bound of
  two or more, whatever the file system holds, and leaves the workspace as it was.
\<close>

theorem self_reference_is_circular:
  assumes c: "cell ws 1 1 1 = Some ''r1.0001''"
  shows "resolve (Suc (Suc n)) default_Config fs ''r1.0001'' 1 {} ws
           = Inr (''[Circular Ref: r1.0001]'', ws)"
proof -
  let ?C = "''[Circular Ref: r1.0001]''"
  have f1: "file_pass fs (scan match_file None ''r1.0001'') = ''r1.0001''"
    by code_simp
  have f2: "scan match_same None ''r1.0001''
              = [Tok None \<lparr>whole = ''r1.0001'', groups = [''1'', ''0001'']\<rparr>]"
    by code_simp
  have p3: "\<And>rec V w. pref3_pass rec default_Config fs V ?C w = Inr (?C, w)"
    by code_simp
  have p4: "\<And>rec V w. two_pass rec default_Config fs V ?C w = Inr (?C, w)"
    by code_simp
  have p5: "\<And>rec V w. tri_pass rec default_Config fs V ?C w = Inr (?C, w)"
    by code_simp
  have k: "parseIntBase ''1'' (base default_Config) = Some 1"
          "parseIntBase ''0001'' (base default_Config) = Some 1"
          "to_string 1 = ''1''"
    by code_simp+
  have inner: "\<And>rec. same_pass rec default_Config fs 1 {''1.1.1''} ''r1.0001'' ws = Inr (?C, ws)"
    by (simp add: same_pass_def f2 same_handler_def k expand_def)
  have lev1: "resolve (Suc n) default_Config fs ''r1.0001'' 1 {''1.1.1''} ws = Inr (?C, ws)"
    by (simp add: f1 cell_passes_def inner p3 p4 p5)
  have outer: "same_pass (resolve (Suc n) default_Config fs) default_Config fs 1 {} ''r1.0001'' ws
                 = Inr (?C, ws)"
    using lev1 getValue_loaded [OF c, of default_Config fs]
    by (simp add: same_pass_def f2 same_handler_def k expand_def del: resolve.simps)
  show ?thesis
    by (subst resolve.simps) (simp add: f1 cell_passes_def outer p3 p4 p5 del: resolve.simps)
qed

theorem self_reference_is_circular_witness:
  "cell store7 1 1 1 = Some ''r1.0001'' \<and>
   resolve 2 default_Config (\<lambda>p. Absent) ''r1.0001'' 1 {} store7
     = Inr (''[Circular Ref: r1.0001]'', store7)"
proof -
  have c: "cell store7 1 1 1 = Some ''r1.0001''" by code_simp
  show ?thesis
    using c self_reference_is_circular [OF c, of 0 "\<lambda>p. Absent"]
    by (simp add: numeral_2_eq_2)
qed

section \<open>Resolution: file inclusion\<close>

lemma match_file_other: "c \<noteq> CHR ''@'' \<Longrightarrow> match_file (c # s) = None"
  by (auto simp: match_file_def)

lemma run1_until:
  "fname \<noteq> [] \<Longrightarrow> \<forall>x \<in> set fname. P x \<Longrightarrow> \<not> P c
   \<Longrightarrow> run1 P (fname @ c # post) = Some (fname, c # post)"
  by (simp add: run1_def takeWhile_append2 dropWhile_append2 takeWhile_eq_Nil_iff)

lemma match_file_token:
  assumes "fname \<noteq> []" "CHR '')'' \<notin> set fname"
  shows "match_file (''@file('' @ fname @ '')'' @ post) = Some (fname, post)"
proof -
  have "run1 (\<lambda>c. c \<noteq> CHR '')'') (fname @ CHR '')'' # post) = Some (fname, CHR '')'' # post)"
    using assms by (intro run1_until) auto
  then show ?thesis by (simp add: match_file_def lit_def)
qed

lemma scan_no_match:
  "\<forall>c \<in> set pre. \<forall>s. m (c # s) = None
   \<Longrightarrow> scan m p (pre @ s) = map Lit pre @ scan m (if pre = [] then p else Some (last pre)) s"
proof (induction pre arbitrary: p)
  case Nil
  then show ?case by simp
next
  case (Cons c pre)
  then have "m (c # pre @ s) = None" by simp
  with Cons show ?case by (simp add: scan.simps)
qed

lemma file_pass_append: "file_pass fs (xs @ ys) = file_pass fs xs @ file_pass fs ys"
proof (induction xs)
  case Nil
  show ?case by simp
next
  case (Cons sg xs)
  then show ?case by (cases sg) simp_all
qed

lemma last_of_match: "last (take (length (xs @ ys) - length ys) (xs @ ys)) = last xs"
  by simp

lemma scan_file_token:
  assumes "CHR ''@'' \<notin> set pre" and "fname \<noteq> []" and "CHR '')'' \<notin> set fname"
  shows "scan match_file None (pre @ ''@file('' @ fname @ '')'' @ post)
           = map Lit pre @ Tok (if pre = [] then None else Some (last pre)) fname
               # scan match_file (Some CHR '')'') post"
proof -
  let ?tok = "''@file('' @ fname @ '')''"
  have a: "\<forall>c \<in> set pre. \<forall>s. match_file (c # s) = None"
    using assms(1) by (auto intro: match_file_other)
  have m: "match_file (?tok @ post) = Some (fname, post)"
    using match_file_token [OF assms(2,3)] by simp
  have l: "last (take (length (?tok @ post) - length post) (?tok @ post)) = CHR '')''"
    unfolding last_of_match by simp
  have t: "scan match_file p (?tok @ post) = Tok p fname # scan match_file (Some CHR '')'') post" for p
    using m l by (simp add: scan.simps)
  show ?thesis
    unfolding scan_no_match [OF a] using t by simp
qed

text \<open>
  Claim C6, as the code has it. Wherever the file pass recognises an
  \<open>@file(...)\<close> token whose file can be read, the contents of the file take the
  place of the token as they are, and the file pass does not look at them again
  (an \<open>@file(...)\<close> inside them stays). But the four cell-reference passes run on
  the whole output of the file pass, the included text with it, so a cell
  reference inside an included file is expanded like one written in the input.
\<close>

theorem included_text_reaches_cell_passes:
  assumes "scan match_file None input = pre @ Tok p fname # post"
    and "fs (path_join ''files'' (trim fname)) = File content"
  shows "resolve (Suc n) cfg fs input currentBank visited ws
           = cell_passes (resolve n cfg fs) cfg fs
               (file_pass fs pre @ content @ file_pass fs post) currentBank visited ws"
  using assms by (simp add: file_pass_append includeFile_def)

text \<open>
  Claim C6 as it was stated fails: the file \<open>files/inc.txt\<close> holds \<open>r1.1\<close>, and
  the result of resolving \<open>@file(inc.txt)\<close> is the value of that cell, not the
  reference.
\<close>

theorem included_reference_is_expanded:
  "includeFile disk6 ''inc.txt'' = ''r1.1'' \<and>
   resolve 2 default_Config disk6 ''@file(inc.txt)'' 1 {} store6 = Inr (''hello'', store6)"
  by code_simp

theorem included_text_reaches_cell_passes_witness:
  "scan match_file None ''see @file(inc.txt)!''
     = map Lit ''see '' @ Tok (Some CHR '' '') ''inc.txt'' # map Lit ''!''
   \<and> disk6 (path_join ''files'' (trim ''inc.txt'')) = File ''r1.1''
   \<and> resolve (Suc 1) default_Config disk6 ''see @file(inc.txt)!'' 1 {} store6
     = cell_passes (resolve 1 default_Config disk6) default_Config disk6
         (file_pass disk6 (map Lit ''see '') @ ''r1.1'' @ file_pass disk6 (map Lit ''!'')) 1 {} store6
   \<and> resolve (Suc 1) default_Config disk6 ''see @file(inc.txt)!'' 1 {} store6
     = Inr (''see hello!'', store6)"
proof -
  have h1: "scan match_file None ''see @file(inc.txt)!''
     = map Lit ''see '' @ Tok (Some CHR '' '') ''inc.txt'' # map Lit ''!''"
    by code_simp
  have h2: "disk6 (path_join ''files'' (trim ''inc.txt'')) = File ''r1.1''" by code_simp
  have e: "cell_passes (resolve 1 default_Config disk6) default_Config disk6
         (file_pass disk6 (map Lit ''see '') @ ''r1.1'' @ file_pass disk6 (map Lit ''!'')) 1 {} store6
       = Inr (''see hello!'', store6)"
    by code_simp
  note t = included_text_reaches_cell_passes [where input = "''see @file(inc.txt)!''"
      and pre = "map Lit ''see ''" and p = "Some CHR '' ''" and fname = "''inc.txt''"
      and post = "map Lit ''!''" and fs = disk6 and content = "''r1.1''" and n = 1
      and cfg = default_Config and currentBank = 1 and visited = "{}" and ws = store6,
      OF h1 h2]
  from h1 h2 t e show ?thesis by (simp only: simp_thms)
qed


section \<open>Resolution and the workspace\<close>

lemma map_of_map_put: "map_of (map_put k v m) = (map_of m)(k \<mapsto> v)"
  by (induction m) (auto simp: fun_upd_twist)






















section \<open>Resolution: cycles and malformed tokens\<close>

text \<open>
  Claim C1 at a store whose cell (1, 1, 1) holds \<open>a r1.1\<close>, whose cell (1, 1, 2)
  holds \<open>b x01.1.2\<close> and whose cell (1, 1, 3) holds \<open>c\<close>. Two references to the
  cell (1, 1, 3) in one string are both expanded. Entered through \<open>r1.1\<close>, the
  cycle is reported at the first reference back to the cell. Entered through \<open>x1.1.1\<close>, the same cell is expanded
  once more before the report, because the prefixed pass stores the key \<open>x1.1.1\<close>
  and the same-bank pass looks for \<open>1.1.1\<close>; and \<open>x01.1.2\<close> is not recognised as
  the cell reached through \<open>x1.1.2\<close>.
\<close>

theorem cycle_found_late_across_syntaxes:
  "resolve 3 default_Config no_files ''r1.3 x1.1.3'' 1 {} store_cyc = Inr (''c c'', store_cyc)
   \<and> resolve 3 default_Config no_files ''r1.1'' 1 {} store_cyc = Inr (''a [Circular Ref: r1.1]'', store_cyc)
   \<and> resolve 3 default_Config no_files ''x1.1.1'' 1 {} store_cyc = Inr (''a a [Circular Ref: r1.1]'', store_cyc)
   \<and> resolve 3 default_Config no_files ''x1.1.2'' 1 {} store_cyc
        = Inr (''b b [Circular Ref: x01.1.2]'', store_cyc)"
  by code_simp


text \<open>
  The bare numeric triad reads its numbers with \<^verbatim>\<open>std::stoll\<close>, not with
  \<open>parseIntBase\<close>: a component that does not fit is an exception out of \<open>resolve\<close>.
\<close>

lemma numeric_triad_overflow_raises:
  "resolve 1 default_Config no_files ''99999999999999999999.1.1'' 1 {} empty_store = Inl OutOfRange"
  by code_simp






section \<open>The plugin kernel: failures\<close>




















section \<open>Round trip of a bank through its text\<close>

lemma isalnum_digitValue: "isalnum c \<longleftrightarrow> 0 \<le> digitValue c"
  by (auto simp: isalnum_def isdigit_def isalpha_def digitValue_def)

lemma isalnum_digitChar: "0 \<le> d \<Longrightarrow> d < 36 \<Longrightarrow> isalnum (digitChar d)"
  by (simp add: isalnum_digitValue digitValue_digitChar)

lemma toBaseN_loop_alnum:
  "2 \<le> b \<Longrightarrow> b \<le> 36 \<Longrightarrow> \<forall>c \<in> set s. isalnum c \<Longrightarrow> \<forall>c \<in> set (toBaseN_loop v b s). isalnum c"
proof (induction v b s rule: toBaseN_loop.induct)
  case (1 val base s)
  show ?case
  proof (cases "0 < val \<and> 2 \<le> base")
    case True
    have "0 \<le> val mod base" "val mod base < base" using True by simp_all
    then have "isalnum (digitChar (val mod base))"
      using "1.prems" by (intro isalnum_digitChar) linarith+
    then have "\<forall>c\<in>set (s @ [digitChar (val mod base)]). isalnum c"
      using "1.prems" by simp
    from "1.IH" [OF True "1.prems"(1,2) this] True show ?thesis
      by (subst toBaseN_loop.simps) simp
  next
    case False
    then show ?thesis using "1.prems" by (subst toBaseN_loop.simps) auto
  qed
qed

lemma isalnum_zero: "isalnum CHR ''0''"
  by (simp add: isalnum_def isdigit_def ord_def)

lemma toBaseN_alnum:
  assumes "0 \<le> v"
  shows "\<forall>c \<in> set (toBaseN v b w). isalnum c"
proof -
  define nb where "nb = (if b < 2 \<or> 36 < b then 10 else b)"
  have b: "2 \<le> nb" "nb \<le> 36" by (auto simp: nb_def)
  have "\<forall>c \<in> set (toBaseN_loop v nb []). isalnum c"
    using toBaseN_loop_alnum [OF b, of "[]" v] by simp
  then show ?thesis
    using assms isalnum_zero unfolding toBaseN_def nb_def [symmetric]
    by (auto simp: Let_def)
qed

lemma toBaseN_nonempty: "0 \<le> v \<Longrightarrow> toBaseN v b w \<noteq> []"
proof -
  assume "0 \<le> v"
  let ?b = "if b < 2 \<or> 36 < b then 10 else b"
  have b: "2 \<le> ?b" by auto
  show ?thesis
  proof (cases "v = 0")
    case True
    then show ?thesis by (simp add: toBaseN_def)
  next
    case False
    with \<open>0 \<le> v\<close> have "0 < v" by simp
    from toBaseN_loop_nonempty [OF this b] \<open>0 < v\<close> show ?thesis
      by (simp add: toBaseN_def Let_def)
  qed
qed

lemma unlines_Cons: "unlines (l # ls) = l @ NL # unlines ls"
  by (simp add: unlines_def)

lemma unlines_append: "unlines (xs @ ys) = unlines xs @ unlines ys"
  by (simp add: unlines_def)

lemma addr_lines_unlines: "concat (map (addr_line cfg) addrs) = unlines (map (aline cfg) addrs)"
  by (induction addrs) (simp_all add: unlines_def addr_line_def aline_def)

lemma reg_lines_unlines:
  "concat (map (\<lambda>ra. toBaseN (fst ra) (base cfg) (widthReg cfg) @ [NL]
                       @ concat (map (addr_line cfg) (snd ra))) rs)
     = unlines (concat (map (reg_lines cfg) rs))"
proof (induction rs)
  case Nil
  show ?case by (simp add: unlines_def)
next
  case (Cons ra rs)
  have "unlines (reg_lines cfg ra)
          = toBaseN (fst ra) (base cfg) (widthReg cfg) @ [NL] @ concat (map (addr_line cfg) (snd ra))"
    by (simp add: reg_lines_def unlines_Cons addr_lines_unlines)
  with Cons show ?case by (simp add: unlines_append)
qed

lemma writeBankText_lines:
  "writeBankText b cfg = unlines ((prefix cfg # header_rest b cfg) # body_lines b cfg @ [''}''])"
proof -
  let ?multi = "1 < length (regs b) \<or> (length (regs b) = 1 \<and> fst (hd (regs b)) \<noteq> 1)"
  let ?body = "if \<not> ?multi then
               (case map_of (regs b) 1 of
                  None \<Rightarrow> []
                | Some addrs \<Rightarrow> concat (map (addr_line cfg) addrs))
             else
               concat (map (\<lambda>ra. toBaseN (fst ra) (base cfg) (widthReg cfg) @ [NL]
                                  @ concat (map (addr_line cfg) (snd ra))) (regs b))"
  have body: "?body = unlines (body_lines b cfg)"
  proof (cases ?multi)
    case True
    then show ?thesis
      unfolding body_lines_def using reg_lines_unlines [of cfg "regs b"] by simp
  next
    case False
    then have l: "body_lines b cfg
                    = (case map_of (regs b) 1 of None \<Rightarrow> [] | Some addrs \<Rightarrow> map (aline cfg) addrs)"
      unfolding body_lines_def by (simp only: if_False)
    from False have r: "?body
                    = (case map_of (regs b) 1 of None \<Rightarrow> []
                       | Some addrs \<Rightarrow> concat (map (addr_line cfg) addrs))"
      by (simp only: not_False_eq_True if_True)
    show ?thesis
      unfolding l r
      by (cases "map_of (regs b) 1") (simp_all add: addr_lines_unlines unlines_def)
  qed
  have "writeBankText b cfg = (prefix cfg # header_rest b cfg) @ [NL] @ ?body @ ''}'' @ [NL]"
    by (simp add: writeBankText_def Let_def header_rest_def)
  also have "\<dots> = unlines ((prefix cfg # header_rest b cfg) # body_lines b cfg @ [''}''])"
    unfolding body by (simp add: unlines_Cons unlines_append) (simp add: unlines_def)
  finally show ?thesis .
qed

lemma getlines_line: "NL \<notin> set l \<Longrightarrow> getlines cur (l @ NL # rest) = (cur @ l) # getlines [] rest"
  by (induction l arbitrary: cur) auto

lemma getlines_unlines: "\<forall>l \<in> set ls. NL \<notin> set l \<Longrightarrow> getlines [] (unlines ls) = ls"
proof (induction ls)
  case Nil
  show ?case by (simp add: unlines_def)
next
  case (Cons l ls)
  then show ?case using getlines_line [of l "[]" "unlines ls"] by (simp add: unlines_Cons)
qed

lemma alnum_plain:
  "isalnum c \<Longrightarrow> c \<noteq> TAB \<and> c \<noteq> CHR '' '' \<and> c \<noteq> NL \<and> c \<noteq> CHR ''}''
     \<and> c \<noteq> CHR ''('' \<and> c \<noteq> CHR ''{'' \<and> \<not> isspace c"
  by (auto simp: isalnum_def isdigit_def isalpha_def isspace_def ord_def TAB_def NL_def)

lemma dropWhile_all: "\<forall>x \<in> set xs. P x \<Longrightarrow> dropWhile P (xs @ ys) = dropWhile P ys"
  by (induction xs) simp_all

lemma takeWhile_all: "\<forall>x \<in> set xs. P x \<Longrightarrow> takeWhile P (xs @ ys) = xs @ takeWhile P ys"
  by (induction xs) simp_all

lemma dropWhile_hd: "s \<noteq> [] \<Longrightarrow> \<not> P (hd s) \<Longrightarrow> dropWhile P s = s"
  by (cases s) simp_all

lemma trim_core:
  assumes "\<forall>c \<in> set pre. isspace c" "\<forall>c \<in> set post. isspace c"
    and "s \<noteq> []" "\<not> isspace (hd s)" "\<not> isspace (last s)"
  shows "trim (pre @ s @ post) = s"
proof -
  have "dropWhile isspace (s @ post) = s @ post"
    using assms(3,4) by (intro dropWhile_hd) simp_all
  then have 1: "dropWhile isspace (pre @ s @ post) = s @ post"
    using assms(1) by (simp add: dropWhile_all)
  have "dropWhile isspace (rev s) = rev s"
    using assms(3,5) by (intro dropWhile_hd) (simp_all add: hd_rev)
  then have 2: "dropWhile isspace (rev post @ rev s) = rev s"
    using assms(2) by (simp add: dropWhile_all)
  show ?thesis by (simp add: trim_def 1 2)
qed

lemma trim_id: "s \<noteq> [] \<Longrightarrow> \<not> isspace (hd s) \<Longrightarrow> \<not> isspace (last s) \<Longrightarrow> trim s = s"
  using trim_core [of "[]" "[]" s] by simp

lemma trim_nonempty: "c \<in> set s \<Longrightarrow> \<not> isspace c \<Longrightarrow> trim s \<noteq> []"
proof -
  assume c: "c \<in> set s" "\<not> isspace c"
  then have "dropWhile isspace s \<noteq> []" by (auto simp: dropWhile_eq_Nil_conv)
  moreover have "c \<in> set (dropWhile isspace s)"
    using c by (induction s) auto
  ultimately have "dropWhile isspace (rev (dropWhile isspace s)) \<noteq> []"
    using c by (auto simp: dropWhile_eq_Nil_conv)
  then show ?thesis by (simp add: trim_def)
qed

lemma digits_facts:
  assumes "in_range v"
  shows "toBaseN v b w \<noteq> []" and "\<forall>c \<in> set (toBaseN v b w). isalnum c"
    and "isalnum (hd (toBaseN v b w))" and "isalnum (last (toBaseN v b w))"
proof -
  from assms have v: "0 \<le> v" by (simp add: in_range_def)
  show ne: "toBaseN v b w \<noteq> []" using toBaseN_nonempty [OF v] .
  show al: "\<forall>c \<in> set (toBaseN v b w). isalnum c" using toBaseN_alnum [OF v] .
  show "isalnum (hd (toBaseN v b w))" using ne al by simp
  show "isalnum (last (toBaseN v b w))" using ne al by simp
qed

lemma trim_digits: "in_range v \<Longrightarrow> trim (toBaseN v b w) = toBaseN v b w"
  using digits_facts [of v b w] alnum_plain by (intro trim_id) auto

lemma parse_body_marker:
  assumes "2 \<le> base cfg" "base cfg \<le> 36" "in_range r"
  shows "parse_body cfg (toBaseN r (base cfg) w # ls) cur rs = parse_body cfg ls r rs"
proof -
  let ?s = "toBaseN r (base cfg) w"
  note d = digits_facts [OF assms(3), of "base cfg" w]
  have a: "CHR ''}'' \<notin> set ?s" using d(2) alnum_plain by auto
  have b: "trim ?s = ?s" using assms(3) by (rule trim_digits)
  have c: "?s \<noteq> [] \<and> hd ?s \<noteq> TAB \<and> hd ?s \<noteq> CHR '' ''"
    using d(1,3) alnum_plain by auto
  have p: "parseIntBase ?s (base cfg) = Some r"
    using assms by (rule parseIntBase_toBaseN)
  show ?thesis using a b c p d(1) by simp
qed

lemma parse_body_aline:
  assumes "2 \<le> base cfg" "base cfg \<le> 36" "in_range a"
    and "NL \<notin> set v" "CHR ''}'' \<notin> set v"
  shows "parse_body cfg (aline cfg (a, v) # ls) cur rs
           = parse_body cfg ls cur (regs_put cur a v rs)"
proof -
  let ?d = "toBaseN a (base cfg) (widthAddr cfg)"
  let ?s = "TAB # ?d @ TAB # v"
  note d = digits_facts [OF assms(3), of "base cfg" "widthAddr cfg"]
  have s: "aline cfg (a, v) = ?s" by (simp add: aline_def)
  have tab: "TAB \<noteq> CHR ''}''" by (simp add: TAB_def)
  have 1: "CHR ''}'' \<notin> set ?s" using d(2) alnum_plain assms(5) tab by auto
  have 2: "trim ?s \<noteq> []"
    using trim_nonempty [of "hd ?d" ?s] d(1,3) alnum_plain by auto
  have 3: "dropWhile (\<lambda>c. c = TAB \<or> c = CHR '' '') (?d @ TAB # v) = ?d @ TAB # v"
    using d(1,3) alnum_plain by (intro dropWhile_hd) auto
  have nt: "TAB \<notin> set ?d" using d(2) alnum_plain by auto
  have "takeWhile (\<lambda>x. x \<noteq> TAB) (?d @ TAB # v) = ?d"
    using nt by (subst takeWhile_all) auto
  then have 4: "find_char TAB (?d @ TAB # v) = Some (length ?d)"
    by (simp add: find_char_def)
  have 5: "trim (substr (?d @ TAB # v) 0 (length ?d)) = ?d"
    using trim_digits [OF assms(3)] by (simp add: substr_def)
  have p: "parseIntBase ?d (base cfg) = Some a"
    using assms(1-3) by (rule parseIntBase_toBaseN)
  show ?thesis
    unfolding s using 1 2 by (simp add: 3 4 5 p Let_def)
qed

lemma put_addrs_Cons: "put_addrs r (av # addrs) rs = put_addrs r addrs (regs_put r (fst av) (snd av) rs)"
  by (simp add: put_addrs_def)

lemma put_regs_Cons: "put_regs (ra # src) rs = put_regs src (put_addrs (fst ra) (snd ra) rs)"
  by (simp add: put_regs_def)

lemma parse_body_alines:
  assumes "2 \<le> base cfg" "base cfg \<le> 36"
  shows "plain_cells addrs \<Longrightarrow>
         parse_body cfg (map (aline cfg) addrs @ ls) cur rs
           = parse_body cfg ls cur (put_addrs cur addrs rs)"
proof (induction addrs arbitrary: rs)
  case Nil
  show ?case by (simp add: put_addrs_def)
next
  case (Cons av addrs)
  obtain a v where av: "av = (a, v)" by (cases av)
  from Cons.prems av have ok: "in_range a" "NL \<notin> set v" "CHR ''}'' \<notin> set v"
    and rest: "plain_cells addrs"
    by (simp_all add: plain_cells_def)
  have "parse_body cfg (map (aline cfg) (av # addrs) @ ls) cur rs
          = parse_body cfg (map (aline cfg) addrs @ ls) cur (regs_put cur a v rs)"
    using parse_body_aline [OF assms ok] av by simp
  also have "\<dots> = parse_body cfg ls cur (put_addrs cur addrs (regs_put cur a v rs))"
    by (rule Cons.IH [OF rest])
  finally show ?case by (simp add: put_addrs_Cons av)
qed

lemma parse_body_close: "parse_body cfg (''}'' # ls) cur rs = Inr rs"
  by simp

lemma parse_body_regs:
  assumes "2 \<le> base cfg" "base cfg \<le> 36"
  shows "\<forall>ra \<in> set src. in_range (fst ra) \<and> plain_cells (snd ra) \<Longrightarrow>
         parse_body cfg (concat (map (reg_lines cfg) src) @ [''}'']) cur rs
           = Inr (put_regs src rs)"
proof (induction src arbitrary: cur rs)
  case Nil
  show ?case by (simp add: put_regs_def)
next
  case (Cons ra src)
  from Cons.prems have r: "in_range (fst ra)" and c: "plain_cells (snd ra)"
    and rest: "\<forall>ra \<in> set src. in_range (fst ra) \<and> plain_cells (snd ra)"
    by simp_all
  let ?tail = "concat (map (reg_lines cfg) src) @ [''}'']"
  have "parse_body cfg (concat (map (reg_lines cfg) (ra # src)) @ [''}'']) cur rs
          = parse_body cfg (toBaseN (fst ra) (base cfg) (widthReg cfg)
                              # map (aline cfg) (snd ra) @ ?tail) cur rs"
    by (simp add: reg_lines_def)
  also have "\<dots> = parse_body cfg (map (aline cfg) (snd ra) @ ?tail) (fst ra) rs"
    by (rule parse_body_marker [OF assms r])
  also have "\<dots> = parse_body cfg ?tail (fst ra) (put_addrs (fst ra) (snd ra) rs)"
    by (rule parse_body_alines [OF assms c])
  also have "\<dots> = Inr (put_regs src (put_addrs (fst ra) (snd ra) rs))"
    by (rule Cons.IH [OF rest])
  finally show ?case by (simp add: put_regs_Cons)
qed

lemma regs_get_regs_put:
  "regs_get (regs_put r a v rs) r' a' = (if r' = r \<and> a' = a then Some v else regs_get rs r' a')"
  by (auto simp: regs_get_def regs_put_def map_of_map_put split: option.splits)

lemma regs_get_put_addrs:
  "distinct (map fst addrs) \<Longrightarrow>
   regs_get (put_addrs r addrs rs) r' a'
     = (if r' = r then (case map_of addrs a' of Some v \<Rightarrow> Some v | None \<Rightarrow> regs_get rs r' a')
        else regs_get rs r' a')"
proof (induction addrs arbitrary: rs)
  case Nil
  show ?case by (simp add: put_addrs_def)
next
  case (Cons av addrs)
  from Cons.prems have d: "distinct (map fst addrs)" and n: "fst av \<notin> fst ` set addrs"
    by simp_all
  from n have m: "map_of addrs (fst av) = None"
    by (simp add: map_of_eq_None_iff)
  show ?case
    unfolding put_addrs_Cons Cons.IH [OF d] regs_get_regs_put
    using m by (cases av) (auto split: option.splits)
qed

lemma regs_get_put_regs:
  "distinct (map fst src) \<Longrightarrow> \<forall>ra \<in> set src. distinct (map fst (snd ra)) \<Longrightarrow>
   regs_get (put_regs src rs) r' a'
     = (case map_of src r' of
          Some m \<Rightarrow> (case map_of m a' of Some v \<Rightarrow> Some v | None \<Rightarrow> regs_get rs r' a')
        | None \<Rightarrow> regs_get rs r' a')"
proof (induction src arbitrary: rs)
  case Nil
  show ?case by (simp add: put_regs_def)
next
  case (Cons ra src)
  from Cons.prems have d: "distinct (map fst src)" and n: "fst ra \<notin> fst ` set src"
    and da: "distinct (map fst (snd ra))"
    and rest: "\<forall>ra \<in> set src. distinct (map fst (snd ra))"
    by simp_all
  from n have m: "map_of src (fst ra) = None"
    by (simp add: map_of_eq_None_iff)
  show ?case
    unfolding put_regs_Cons Cons.IH [OF d rest] regs_get_put_addrs [OF da]
    using m by (cases ra) (auto split: option.splits)
qed

lemma regs_get_Nil: "regs_get [] r a = None"
  by (simp add: regs_get_def)

lemma body_roundtrip:
  assumes "2 \<le> base cfg" "base cfg \<le> 36"
    and asc: "ascending (regs b)"
    and ok: "\<forall>ra \<in> set (regs b). in_range (fst ra) \<and> ascending (snd ra) \<and> plain_cells (snd ra)"
  shows "\<exists>rs. parse_body cfg (body_lines b cfg @ [''}'']) 1 [] = Inr rs
              \<and> (\<forall>r a. regs_get rs r a = regs_get (regs b) r a)"
proof (cases "1 < length (regs b) \<or> (length (regs b) = 1 \<and> fst (hd (regs b)) \<noteq> 1)")
  case True
  then have bl: "body_lines b cfg = concat (map (reg_lines cfg) (regs b))"
    by (simp add: body_lines_def)
  have p: "parse_body cfg (body_lines b cfg @ [''}'']) 1 [] = Inr (put_regs (regs b) [])"
    unfolding bl using ok by (intro parse_body_regs [OF assms(1,2)]) simp
  have d: "distinct (map fst (regs b))" "\<forall>ra \<in> set (regs b). distinct (map fst (snd ra))"
    using asc ok by (simp_all add: ascending_def)
  have "regs_get (put_regs (regs b) []) r a = regs_get (regs b) r a" for r a
    unfolding regs_get_put_regs [OF d] regs_get_Nil
    by (simp add: regs_get_def split: option.splits)
  with p show ?thesis by blast
next
  case False
  then have bl: "body_lines b cfg
                   = (case map_of (regs b) 1 of None \<Rightarrow> [] | Some addrs \<Rightarrow> map (aline cfg) addrs)"
    unfolding body_lines_def by (simp only: if_False)
  have "regs b = [] \<or> (\<exists>m. regs b = [(1, m)])"
  proof (cases "regs b")
    case Nil
    then show ?thesis by simp
  next
    case (Cons ra rest)
    with False have "rest = []" "fst ra = 1" by simp_all
    with Cons show ?thesis by (cases ra) simp
  qed
  then consider "regs b = []" | m where "regs b = [(1, m)]"
    by blast
  then show ?thesis
  proof cases
    case 1
    then show ?thesis by (simp add: bl)
  next
    case 2
    from ok 2 have c: "plain_cells m" and d: "distinct (map fst m)"
      by (simp_all add: ascending_def)
    have p: "parse_body cfg (body_lines b cfg @ [''}'']) 1 [] = Inr (put_addrs 1 m [])"
      unfolding bl using parse_body_alines [OF assms(1,2) c, of "[''}'']" 1 "[]"] 2 by simp
    have "regs_get (put_addrs 1 m []) r a = regs_get (regs b) r a" for r a
      unfolding regs_get_put_addrs [OF d] regs_get_Nil 2
      by (simp add: regs_get_def split: option.splits)
    with p show ?thesis by blast
  qed
qed

lemma parseBankText_steps:
  assumes "getlines [] (strip_bom text) = Ls" "Ls \<noteq> []"
    and "dropWhile (\<lambda>l. trim l = []) Ls = hdr # later"
    and "accum_header (trim hdr) later = H" "CHR ''{'' \<in> set H"
    and "find_char CHR ''('' H = Some lp" "rfind_char CHR '')'' H = Some rp" "\<not> rp < lp"
    and "(if trim (substr H 0 lp) \<noteq> [] \<and> hd (trim (substr H 0 lp)) = prefix cfg
          then tl (trim (substr H 0 lp)) else trim (substr H 0 lp)) = left"
    and "parseIntBase left (base cfg) = Some bid"
    and "dropWhile (\<lambda>l. CHR ''{'' \<notin> set l) (hdr # later) = bl # body"
    and "parse_body cfg body 1 [] = Inr rs"
  shows "parseBankText text cfg
           = Inr \<lparr>bank_id = bid, title = trim (substr H (lp + 1) (rp - lp - 1)), regs = rs\<rparr>"
  using assms by (simp add: parseBankText_def Let_def)

lemma accum_header_done: "CHR ''{'' \<in> set acc \<Longrightarrow> accum_header acc ls = acc"
  by (cases ls) simp_all

lemma alnum_not_bom: "isalnum c \<Longrightarrow> c \<noteq> CHR 0xBB"
  by (auto simp: isalnum_def isdigit_def isalpha_def ord_def)

lemma isspace_NL: "isspace NL"
  by (simp add: isspace_def NL_def ord_def)

lemma nonspace_chars: "\<not> isspace CHR ''{''" "\<not> isspace CHR ''(''" "TAB \<noteq> NL" "isspace TAB"
  "TAB \<noteq> CHR ''(''" "CHR ''('' \<noteq> NL" "CHR '')'' \<noteq> NL" "CHR ''{'' \<noteq> NL" "CHR ''}'' \<noteq> NL"
  by (simp_all add: isspace_def TAB_def NL_def ord_def)

lemma aline_no_NL:
  "in_range (fst av) \<Longrightarrow> NL \<notin> set (snd av) \<Longrightarrow> NL \<notin> set (aline cfg av)"
  using digits_facts(2) [of "fst av" "base cfg" "widthAddr cfg"] alnum_plain nonspace_chars
  by (auto simp: aline_def)

lemma reg_lines_no_NL:
  assumes "in_range (fst ra)" "plain_cells (snd ra)"
  shows "\<forall>l \<in> set (reg_lines cfg ra). NL \<notin> set l"
proof -
  have "NL \<notin> set (toBaseN (fst ra) (base cfg) (widthReg cfg))"
    using digits_facts(2) [OF assms(1), of "base cfg" "widthReg cfg"] alnum_plain by auto
  moreover have "\<forall>av \<in> set (snd ra). NL \<notin> set (aline cfg av)"
    using assms(2) aline_no_NL by (auto simp: plain_cells_def)
  ultimately show ?thesis by (auto simp: reg_lines_def)
qed

lemma body_lines_no_NL:
  assumes "\<forall>ra \<in> set (regs b). in_range (fst ra) \<and> plain_cells (snd ra)"
  shows "\<forall>l \<in> set (body_lines b cfg). NL \<notin> set l"
proof (cases "1 < length (regs b) \<or> (length (regs b) = 1 \<and> fst (hd (regs b)) \<noteq> 1)")
  case True
  then have "body_lines b cfg = concat (map (reg_lines cfg) (regs b))"
    by (simp add: body_lines_def)
  then show ?thesis using assms reg_lines_no_NL by auto
next
  case False
  then have bl: "body_lines b cfg
                   = (case map_of (regs b) 1 of None \<Rightarrow> [] | Some addrs \<Rightarrow> map (aline cfg) addrs)"
    unfolding body_lines_def by (simp only: if_False)
  show ?thesis
  proof (cases "map_of (regs b) 1")
    case None
    with bl show ?thesis by simp
  next
    case (Some m)
    then have "(1, m) \<in> set (regs b)" by (rule map_of_SomeD)
    with assms have "plain_cells m" by auto
    then have "\<forall>av \<in> set m. NL \<notin> set (aline cfg av)"
      using aline_no_NL by (auto simp: plain_cells_def)
    with bl Some show ?thesis by auto
  qed
qed

lemma header_parse:
  assumes b: "2 \<le> base cfg" "base cfg \<le> 36" and p: "prefix cfg \<noteq> CHR ''(''"
    and idr: "in_range (bank_id bk)"
  defines "H \<equiv> (if isspace (prefix cfg) then header_rest bk cfg else prefix cfg # header_rest bk cfg)"
  shows "CHR ''{'' \<in> set H"
    and "\<exists>lp rp. find_char CHR ''('' H = Some lp \<and> rfind_char CHR '')'' H = Some rp \<and> \<not> rp < lp
           \<and> trim (substr H (lp + 1) (rp - lp - 1)) = trim (title bk)
           \<and> parseIntBase
               (if trim (substr H 0 lp) \<noteq> [] \<and> hd (trim (substr H 0 lp)) = prefix cfg
                then tl (trim (substr H 0 lp)) else trim (substr H 0 lp)) (base cfg)
               = Some (bank_id bk)"
proof -
  let ?ds = "toBaseN (bank_id bk) (base cfg) (widthBank cfg)"
  let ?pre = "if isspace (prefix cfg) then [] else [prefix cfg]"
  note d = digits_facts [OF idr, of "base cfg" "widthBank cfg"]
  have H: "H = (?pre @ ?ds @ [TAB]) @ CHR ''('' # title bk @ ''){''"
    by (simp add: H_def header_rest_def)
  show "CHR ''{'' \<in> set H" by (simp add: H)
  have left_clean: "\<forall>c \<in> set (?pre @ ?ds @ [TAB]). c \<noteq> CHR ''(''"
    using p d(2) alnum_plain nonspace_chars by auto
  have tw: "takeWhile (\<lambda>x. x \<noteq> CHR ''('') H = ?pre @ ?ds @ [TAB]"
    unfolding H using left_clean by (subst takeWhile_all) auto
  let ?lp = "length (?pre @ ?ds @ [TAB])"
  have lp: "find_char CHR ''('' H = Some ?lp"
    unfolding find_char_def using tw by (simp add: H)
  have rv: "rev H = CHR ''{'' # CHR '')'' # rev (title bk) @ CHR ''('' # rev (?pre @ ?ds @ [TAB])"
    by (simp add: H)
  let ?rp = "length H - 1 - 1"
  have rp: "rfind_char CHR '')'' H = Some ?rp"
    by (simp add: rfind_char_def rv) (simp add: H)
  have len: "length H = ?lp + 1 + length (title bk) + 2" by (simp add: H)
  have ord: "\<not> ?rp < ?lp" using len by simp
  have s0: "substr H 0 ?lp = ?pre @ ?ds @ [TAB]"
    by (simp add: substr_def H)
  have s1: "substr H (?lp + 1) (?rp - ?lp - 1) = title bk"
  proof -
    have "drop (?lp + 1) H = title bk @ ''){''" unfolding H by simp
    moreover have "?rp - ?lp - 1 = length (title bk)" using len by simp
    ultimately show ?thesis by (simp add: substr_def)
  qed
  have core: "trim (?pre @ ?ds @ [TAB]) = ?pre @ ?ds"
  proof -
    have "trim ([] @ (?pre @ ?ds) @ [TAB]) = ?pre @ ?ds"
      using d(1,3,4) alnum_plain nonspace_chars
      by (intro trim_core) (auto simp: hd_append)
    then show ?thesis by simp
  qed
  have left: "(if trim (substr H 0 ?lp) \<noteq> [] \<and> hd (trim (substr H 0 ?lp)) = prefix cfg
                then tl (trim (substr H 0 ?lp)) else trim (substr H 0 ?lp)) = ?ds"
  proof (cases "isspace (prefix cfg)")
    case True
    have "hd ?ds \<noteq> prefix cfg" using True d(3) alnum_plain by auto
    with True show ?thesis unfolding s0 core by simp
  next
    case False
    then show ?thesis unfolding s0 core by simp
  qed
  have pi: "parseIntBase ?ds (base cfg) = Some (bank_id bk)"
    using b idr by (rule parseIntBase_toBaseN)
  show "\<exists>lp rp. find_char CHR ''('' H = Some lp \<and> rfind_char CHR '')'' H = Some rp \<and> \<not> rp < lp
           \<and> trim (substr H (lp + 1) (rp - lp - 1)) = trim (title bk)
           \<and> parseIntBase
               (if trim (substr H 0 lp) \<noteq> [] \<and> hd (trim (substr H 0 lp)) = prefix cfg
                then tl (trim (substr H 0 lp)) else trim (substr H 0 lp)) (base cfg)
               = Some (bank_id bk)"
    using lp rp ord s1 left pi by (intro exI [of _ ?lp] exI [of _ ?rp]) simp
qed

lemma header_rest_facts:
  assumes "in_range (bank_id b)" "NL \<notin> set (title b)"
  shows "NL \<notin> set (header_rest b cfg)" and "header_rest b cfg \<noteq> []"
    and "isalnum (hd (header_rest b cfg))" and "last (header_rest b cfg) = CHR ''{''"
    and "CHR ''{'' \<in> set (header_rest b cfg)"
proof -
  note d = digits_facts [OF assms(1), of "base cfg" "widthBank cfg"]
  show "NL \<notin> set (header_rest b cfg)"
    using d(2) alnum_plain nonspace_chars assms(2) by (auto simp: header_rest_def)
  show "header_rest b cfg \<noteq> []" by (simp add: header_rest_def)
  show "isalnum (hd (header_rest b cfg))" using d(1,3) by (simp add: header_rest_def hd_append)
  show "last (header_rest b cfg) = CHR ''{''" by (simp add: header_rest_def)
  show "CHR ''{'' \<in> set (header_rest b cfg)" by (simp add: header_rest_def)
qed

text \<open>
  Claim C3, within the limits of the format. For a base from 2 to 36, any widths
  and any prefix character but the opening parenthesis, and for a bank whose
  identifiers are not negative, whose title has no newline and whose values have
  neither a newline nor a closing brace: parsing the text written for the bank
  succeeds and gives a bank with the same id, the trimmed title and the same value
  at every register and address.
\<close>

theorem bank_text_roundtrip:
  assumes b: "2 \<le> base cfg" "base cfg \<le> 36" and p: "prefix cfg \<noteq> CHR ''(''"
    and st: "storable b"
  shows "\<exists>b'. parseBankText (writeBankText b cfg) cfg = Inr b'
            \<and> bank_id b' = bank_id b \<and> title b' = trim (title b)
            \<and> (\<forall>r a. bank_cell b' r a = bank_cell b r a)"
proof -
  let ?p = "prefix cfg"
  let ?hr = "header_rest b cfg"
  let ?rest = "body_lines b cfg @ [''}'']"
  let ?text = "writeBankText b cfg"
  from st have idr: "in_range (bank_id b)" and tn: "NL \<notin> set (title b)"
    and asc: "ascending (regs b)"
    by (simp_all add: storable_def)
  have cells: "\<forall>ra \<in> set (regs b). in_range (fst ra) \<and> ascending (snd ra) \<and> plain_cells (snd ra)"
    using st by (simp add: storable_def)
  note hf = header_rest_facts [OF idr tn, of cfg]
  have wt: "?text = unlines ((?p # ?hr) # ?rest)" by (rule writeBankText_lines)
  have rest_nl: "\<forall>l \<in> set ?rest. NL \<notin> set l"
    using body_lines_no_NL [of b cfg] cells nonspace_chars by auto
  \<comment> \<open>the byte-order mark\<close>
  have bom: "strip_bom ?text = ?text"
  proof -
    obtain c cs where hr: "?hr = c # cs" using hf(2) by (cases ?hr) auto
    with hf(3) have "c \<noteq> CHR 0xBB" using alnum_not_bom by auto
    then show ?thesis
      unfolding wt strip_bom_def by (simp add: unlines_Cons hr)
  qed
  \<comment> \<open>the lines\<close>
  define hdr where "hdr = (if ?p = NL then ?hr else ?p # ?hr)"
  define Ls where "Ls = (if ?p = NL then [] # ?hr # ?rest else (?p # ?hr) # ?rest)"
  have "getlines [] ?text = Ls"
  proof (cases "?p = NL")
    case True
    have "unlines ((?p # ?hr) # ?rest) = unlines ([] # ?hr # ?rest)"
      using True by (simp add: unlines_Cons)
    moreover have "\<forall>l \<in> set ([] # ?hr # ?rest). NL \<notin> set l"
      using hf(1) rest_nl by simp
    ultimately show ?thesis
      unfolding wt Ls_def using True getlines_unlines [of "[] # ?hr # ?rest"] by simp
  next
    case False
    then have "\<forall>l \<in> set ((?p # ?hr) # ?rest). NL \<notin> set l"
      using hf(1) rest_nl by auto
    then show ?thesis
      unfolding wt Ls_def using False getlines_unlines [of "(?p # ?hr) # ?rest"] by simp
  qed
  then have lines: "getlines [] (strip_bom ?text) = Ls"
    by (simp only: bom)
  have Ls_ne: "Ls \<noteq> []" by (simp add: Ls_def)
  have hr_ns: "\<not> isspace (hd ?hr)" using hf(3) alnum_plain by auto
  have t_hr: "trim ?hr \<noteq> []"
    using trim_nonempty [of "hd ?hr" ?hr] hf(2) hr_ns by simp
  have t_phr: "trim (?p # ?hr) \<noteq> []"
    using trim_nonempty [of "hd ?hr" "?p # ?hr"] hf(2) hr_ns by simp
  have t_nil: "trim [] = []" by (simp add: trim_def)
  have from_i: "dropWhile (\<lambda>l. trim l = []) Ls = hdr # ?rest"
    using t_hr t_phr t_nil by (simp add: Ls_def hdr_def)
  \<comment> \<open>the header\<close>
  define H where "H = (if isspace ?p then ?hr else ?p # ?hr)"
  have trim_hr: "trim ?hr = ?hr"
    using hf(2,4) hr_ns nonspace_chars by (intro trim_id) simp_all
  have trim_hdr: "trim hdr = H"
  proof (cases "isspace ?p")
    case True
    have "trim ([?p] @ ?hr @ []) = ?hr"
      using True hf(2,4) hr_ns nonspace_chars by (intro trim_core) simp_all
    with True trim_hr show ?thesis by (simp add: hdr_def H_def)
  next
    case False
    then have "?p \<noteq> NL" using isspace_NL by auto
    moreover have "trim (?p # ?hr) = ?p # ?hr"
      using False hf(2,4) nonspace_chars by (intro trim_id) simp_all
    ultimately show ?thesis using False by (simp add: hdr_def H_def)
  qed
  note hp = header_parse [OF b p idr, folded H_def]
  have acc: "accum_header (trim hdr) ?rest = H"
    unfolding trim_hdr using hp(1) by (rule accum_header_done)
  from hp(2) obtain lp rp where
    lp: "find_char CHR ''('' H = Some lp" and rp: "rfind_char CHR '')'' H = Some rp"
    and ord: "\<not> rp < lp"
    and ttl: "trim (substr H (lp + 1) (rp - lp - 1)) = trim (title b)"
    and pid: "parseIntBase
               (if trim (substr H 0 lp) \<noteq> [] \<and> hd (trim (substr H 0 lp)) = prefix cfg
                then tl (trim (substr H 0 lp)) else trim (substr H 0 lp)) (base cfg)
               = Some (bank_id b)"
    by blast
  have brace: "dropWhile (\<lambda>l. CHR ''{'' \<notin> set l) (hdr # ?rest) = hdr # ?rest"
    using hf(5) by (simp add: hdr_def)
  \<comment> \<open>the body\<close>
  from body_roundtrip [OF b asc cells] obtain rs where
    body: "parse_body cfg ?rest 1 [] = Inr rs"
    and same: "\<forall>r a. regs_get rs r a = regs_get (regs b) r a"
    by blast
  have "parseBankText ?text cfg
          = Inr \<lparr>bank_id = bank_id b, title = trim (substr H (lp + 1) (rp - lp - 1)), regs = rs\<rparr>"
    by (rule parseBankText_steps [OF lines Ls_ne from_i acc hp(1) lp rp ord refl pid brace body])
  with ttl same show ?thesis
    by (simp add: bank_cell_def)
qed

text \<open>
  Claim C3 as it was stated fails: a value that holds a closing brace ends the
  body where it stands, and the cells from that line on are not read back.
\<close>

theorem brace_in_value_ends_the_body:
  "bank_cell bank_brace 1 2 = Some ''kept?''
   \<and> parseBankText (writeBankText bank_brace default_Config) default_Config
       = Inr \<lparr>bank_id = 1, title = ''t'', regs = []\<rparr>"
  by code_simp

text \<open>
  The other limits of the format: a newline in a value starts a new line, a
  negative id is written with a sign that \<open>parseIntBase\<close> does not read, the prefix
  \<open>(\<close> is taken for the parenthesis of the title, and a title that brings a brace
  and a newline ends the header before its closing parenthesis.
\<close>

lemma format_limits:
  "parseBankText (writeBankText \<lparr>bank_id = 1, title = ''t'', regs = [(1, [(1, [CHR ''a'', NL, CHR ''b''])])]\<rparr> default_Config) default_Config
     = Inl ''invalid register line: b''"
  "parseBankText (writeBankText \<lparr>bank_id = - 1, title = ''t'', regs = []\<rparr> default_Config) default_Config
     = Inl ''cannot parse bank id''"
  "parseBankText (writeBankText \<lparr>bank_id = 1, title = ''t'', regs = []\<rparr> (default_Config\<lparr>prefix := CHR ''(''\<rparr>)) (default_Config\<lparr>prefix := CHR ''(''\<rparr>)
     = Inl ''cannot parse bank id''"
  "parseBankText (writeBankText \<lparr>bank_id = 1, title = [CHR ''{'', NL], regs = []\<rparr> default_Config) default_Config
     = Inl ''malformed header: parentheses''"
  by code_simp+

theorem bank_text_roundtrip_witness:
  "2 \<le> base default_Config \<and> base default_Config \<le> 36 \<and> prefix default_Config \<noteq> CHR ''(''
   \<and> storable bank_notes
   \<and> (\<exists>b'. parseBankText (writeBankText bank_notes default_Config) default_Config = Inr b'
            \<and> bank_id b' = bank_id bank_notes \<and> title b' = trim (title bank_notes)
            \<and> (\<forall>r a. bank_cell b' r a = bank_cell bank_notes r a))"
proof -
  have h: "2 \<le> base default_Config" "base default_Config \<le> 36"
    "prefix default_Config \<noteq> CHR ''(''" "storable bank_notes"
    by code_simp+
  show ?thesis
    using h bank_text_roundtrip [OF h] by simp
qed

end
